theory Spec2Isabelle
  imports Complex_Main
begin

section \<open>JavaScript numbers\<close>

text \<open>
  A JavaScript number is a finite value, one of the two infinities, or NaN.  Finite values
  are modelled as mathematical reals: IEEE rounding, overflow of finite arithmetic and the
  sign of zero are outside the model (a zero divisor is taken to be \<open>+0\<close>).  The
  non-finite values are kept, because the code under study produces them from ordinary
  inputs (\<open>0/0\<close> on an empty or constant buffer, \<open>log2\<close> of a non-positive ratio) and
  relies on how comparisons treat them.
\<close>

datatype jsnum = Fin real | PosInf | NegInf | NaN

definition inf_of_sign :: "real \<Rightarrow> jsnum" where
  "inf_of_sign s = (if s = 0 then NaN else if 0 < s then PosInf else NegInf)"

fun js_lt :: "jsnum \<Rightarrow> jsnum \<Rightarrow> bool" where
  "js_lt NaN _ = False"
| "js_lt _ NaN = False"
| "js_lt (Fin x) (Fin y) = (x < y)"
| "js_lt (Fin _) PosInf = True"
| "js_lt (Fin _) NegInf = False"
| "js_lt PosInf _ = False"
| "js_lt NegInf NegInf = False"
| "js_lt NegInf _ = True"

definition js_gt :: "jsnum \<Rightarrow> jsnum \<Rightarrow> bool" where
  "js_gt a b = js_lt b a"

definition js_le :: "jsnum \<Rightarrow> jsnum \<Rightarrow> bool" where
  "js_le a b = (a \<noteq> NaN \<and> b \<noteq> NaN \<and> (a = b \<or> js_lt a b))"


fun js_neg :: "jsnum \<Rightarrow> jsnum" where
  "js_neg (Fin x) = Fin (- x)"
| "js_neg PosInf = NegInf"
| "js_neg NegInf = PosInf"
| "js_neg NaN = NaN"

fun js_add :: "jsnum \<Rightarrow> jsnum \<Rightarrow> jsnum" where
  "js_add NaN _ = NaN"
| "js_add _ NaN = NaN"
| "js_add (Fin x) (Fin y) = Fin (x + y)"
| "js_add PosInf NegInf = NaN"
| "js_add NegInf PosInf = NaN"
| "js_add PosInf _ = PosInf"
| "js_add _ PosInf = PosInf"
| "js_add NegInf _ = NegInf"
| "js_add _ NegInf = NegInf"

definition js_sub :: "jsnum \<Rightarrow> jsnum \<Rightarrow> jsnum" where
  "js_sub a b = js_add a (js_neg b)"

fun js_mul :: "jsnum \<Rightarrow> jsnum \<Rightarrow> jsnum" where
  "js_mul NaN _ = NaN"
| "js_mul _ NaN = NaN"
| "js_mul (Fin x) (Fin y) = Fin (x * y)"
| "js_mul (Fin x) PosInf = inf_of_sign x"
| "js_mul (Fin x) NegInf = inf_of_sign (- x)"
| "js_mul PosInf (Fin y) = inf_of_sign y"
| "js_mul NegInf (Fin y) = inf_of_sign (- y)"
| "js_mul PosInf PosInf = PosInf"
| "js_mul NegInf NegInf = PosInf"
| "js_mul PosInf NegInf = NegInf"
| "js_mul NegInf PosInf = NegInf"

fun js_div :: "jsnum \<Rightarrow> jsnum \<Rightarrow> jsnum" where
  "js_div NaN _ = NaN"
| "js_div _ NaN = NaN"
| "js_div (Fin x) (Fin y) = (if y = 0 then inf_of_sign x else Fin (x / y))"
| "js_div (Fin _) _ = Fin 0"
| "js_div PosInf (Fin y) = (if 0 \<le> y then PosInf else NegInf)"
| "js_div NegInf (Fin y) = (if 0 \<le> y then NegInf else PosInf)"
| "js_div _ _ = NaN"

fun js_abs :: "jsnum \<Rightarrow> jsnum" where
  "js_abs (Fin x) = Fin \<bar>x\<bar>"
| "js_abs PosInf = PosInf"
| "js_abs NegInf = PosInf"
| "js_abs NaN = NaN"

fun js_sqrt :: "jsnum \<Rightarrow> jsnum" where
  "js_sqrt (Fin x) = (if x < 0 then NaN else Fin (sqrt x))"
| "js_sqrt PosInf = PosInf"
| "js_sqrt NegInf = NaN"
| "js_sqrt NaN = NaN"

fun js_log2 :: "jsnum \<Rightarrow> jsnum" where
  "js_log2 (Fin x) = (if x < 0 then NaN else if x = 0 then NegInf else Fin (log 2 x))"
| "js_log2 PosInf = PosInf"
| "js_log2 NegInf = NaN"
| "js_log2 NaN = NaN"

text \<open>\<open>Math.round\<close> rounds halves towards \<open>+\<infinity>\<close>, as \<^const>\<open>round\<close> does.\<close>

fun js_round :: "jsnum \<Rightarrow> jsnum" where
  "js_round (Fin x) = Fin (of_int (round x))"
| "js_round a = a"

fun js_floor :: "jsnum \<Rightarrow> jsnum" where
  "js_floor (Fin x) = Fin (of_int \<lfloor>x\<rfloor>)"
| "js_floor a = a"

definition trunc :: "real \<Rightarrow> int" where
  "trunc x = (if 0 \<le> x then \<lfloor>x\<rfloor> else \<lceil>x\<rceil>)"

text \<open>The \<open>%\<close> operator: the remainder takes the sign of the dividend.\<close>

fun js_rem :: "jsnum \<Rightarrow> jsnum \<Rightarrow> jsnum" where
  "js_rem NaN _ = NaN"
| "js_rem _ NaN = NaN"
| "js_rem (Fin x) (Fin y) = (if y = 0 then NaN else Fin (x - y * of_int (trunc (x / y))))"
| "js_rem (Fin x) _ = Fin x"
| "js_rem _ _ = NaN"

fun isFinite :: "jsnum \<Rightarrow> bool" where
  "isFinite (Fin _) = True"
| "isFinite _ = False"

text \<open>\<open>Math.pow(2, x)\<close>, the only way the code calls \<open>Math.pow\<close>.\<close>

fun js_pow2 :: "jsnum \<Rightarrow> jsnum" where
  "js_pow2 (Fin x) = Fin (2 powr x)"
| "js_pow2 PosInf = PosInf"
| "js_pow2 NegInf = Fin 0"
| "js_pow2 NaN = NaN"

text \<open>Truthiness of a number: \<open>0\<close> and NaN are falsy.\<close>

fun js_truthy :: "jsnum \<Rightarrow> bool" where
  "js_truthy (Fin x) = (x \<noteq> 0)"
| "js_truthy NaN = False"
| "js_truthy _ = True"

text \<open>
  Reading \<open>xs[n]\<close> from an array with a number as the key: the element when \<open>n\<close> is an
  integer in range, \<open>undefined\<close> (here \<open>None\<close>) otherwise.
\<close>

fun js_index :: "'a list \<Rightarrow> jsnum \<Rightarrow> 'a option" where
  "js_index xs (Fin x) =
     (if of_int \<lfloor>x\<rfloor> = x \<and> 0 \<le> x \<and> x < real (length xs) then Some (xs ! nat \<lfloor>x\<rfloor>) else None)"
| "js_index xs _ = None"


section \<open>The note table (fretboard.js)\<close>

definition NOTE_NAMES :: "string list" where
  "NOTE_NAMES = [''C'', ''C#'', ''D'', ''D#'', ''E'', ''F'', ''F#'', ''G'', ''G#'', ''A'', ''A#'', ''B'']"

text \<open>
  The object returned by \<open>frequencyToNote\<close>.  Its \<open>note\<close> property is the field
  \<open>noteName\<close> here (\<open>note\<close> is a reserved word of the proof language); reading the table
  out of range gives \<open>undefined\<close>, hence the option.
\<close>

record note_info =
  noteName :: "string option"
  midiNote :: jsnum
  octave :: jsnum

text \<open>\<open>frequencyToNote(freq)\<close>; \<open>null\<close> is \<open>None\<close>.\<close>

definition frequencyToNote :: "jsnum \<Rightarrow> note_info option" where
  "frequencyToNote freq =
     (if js_lt freq (Fin 20) \<or> js_gt freq (Fin 5000) then None
      else
        let midiNote = js_round (js_add (js_mul (Fin 12) (js_log2 (js_div freq (Fin 440)))) (Fin 69));
            noteIndex = js_rem (js_add (js_rem midiNote (Fin 12)) (Fin 12)) (Fin 12)
        in Some \<lparr> noteName = js_index NOTE_NAMES noteIndex,
                  midiNote = midiNote,
                  octave = js_sub (js_floor (js_div midiNote (Fin 12))) (Fin 1) \<rparr>)"

text \<open>
  The rows of \<open>OPEN_STRINGS\<close>, keyed by string number, and the objects pushed by
  \<open>generateFretboard\<close>.  Field names carry a prefix because records share one name space.
\<close>

record open_string =
  os_note :: string
  os_octave :: jsnum
  os_frequency :: jsnum
  os_midi :: jsnum

definition OPEN_STRINGS :: "nat \<rightharpoonup> open_string" where
  "OPEN_STRINGS =
     [6 \<mapsto> \<lparr> os_note = ''E'', os_octave = Fin 2, os_frequency = Fin (8241 / 100), os_midi = Fin 40 \<rparr>,
      5 \<mapsto> \<lparr> os_note = ''A'', os_octave = Fin 2, os_frequency = Fin 110, os_midi = Fin 45 \<rparr>,
      4 \<mapsto> \<lparr> os_note = ''D'', os_octave = Fin 3, os_frequency = Fin (14683 / 100), os_midi = Fin 50 \<rparr>,
      3 \<mapsto> \<lparr> os_note = ''G'', os_octave = Fin 3, os_frequency = Fin 196, os_midi = Fin 55 \<rparr>,
      2 \<mapsto> \<lparr> os_note = ''B'', os_octave = Fin 3, os_frequency = Fin (24694 / 100), os_midi = Fin 59 \<rparr>,
      1 \<mapsto> \<lparr> os_note = ''E'', os_octave = Fin 4, os_frequency = Fin (32963 / 100), os_midi = Fin 64 \<rparr>]"

record position =
  pos_string :: jsnum
  pos_fret :: jsnum
  pos_note :: "string option"
  pos_octave :: jsnum
  pos_frequency :: jsnum
  pos_midiNote :: jsnum

text \<open>
  Reading a property of \<open>undefined\<close> throws a \<open>TypeError\<close>; that is the one way the loop
  body of \<open>generateFretboard\<close> could fail (a string number without a row in the table).
\<close>

datatype js_error = TypeError

text \<open>A counting \<open>for\<close> loop over the given indices that stops at the first error.\<close>

fun forEach :: "nat list \<Rightarrow> (nat \<Rightarrow> 's \<Rightarrow> js_error + 's) \<Rightarrow> 's \<Rightarrow> js_error + 's" where
  "forEach [] body s = Inr s"
| "forEach (i # is) body s = (case body i s of Inl e \<Rightarrow> Inl e | Inr s' \<Rightarrow> forEach is body s')"

text \<open>
  The body of the inner loop of \<open>generateFretboard\<close>: the values it computes from the
  table row and the object built from them, then the push.
\<close>

definition positionFor :: "open_string \<Rightarrow> nat \<Rightarrow> nat \<Rightarrow> position" where
  "positionFor openString string fret =
     (let midiNote = js_add (os_midi openString) (Fin (real fret));
          noteIndex = js_rem midiNote (Fin 12);
          octave = js_sub (js_floor (js_div midiNote (Fin 12))) (Fin 1);
          frequency = js_mul (Fin 440) (js_pow2 (js_div (js_sub midiNote (Fin 69)) (Fin 12)))
      in \<lparr> pos_string = Fin (real string),
           pos_fret = Fin (real fret),
           pos_note = js_index NOTE_NAMES noteIndex,
           pos_octave = octave,
           pos_frequency = frequency,
           pos_midiNote = midiNote \<rparr>)"

definition pushPosition :: "nat \<Rightarrow> nat \<Rightarrow> position list \<Rightarrow> js_error + position list" where
  "pushPosition string fret fretboard =
     (case OPEN_STRINGS string of
        None \<Rightarrow> Inl TypeError
      | Some openString \<Rightarrow> Inr (fretboard @ [positionFor openString string fret]))"

definition generateFretboard :: "js_error + position list" where
  "generateFretboard =
     forEach [1 ..< 7] (\<lambda>string. forEach [0 ..< 13] (\<lambda>fret. pushPosition string fret)) []"

text \<open>
  \<open>const FRETBOARD = generateFretboard()\<close>, evaluated when the module loads; had the call
  thrown there would be no table.
\<close>

definition FRETBOARD :: "position list" where
  "FRETBOARD = (case generateFretboard of Inl e \<Rightarrow> [] | Inr fretboard \<Rightarrow> fretboard)"

text \<open>
  The calibration table \<open>this.calibrationOffsets\<close> maps string numbers to cents;
  \<open>getCalibrationOffset\<close> is \<open>this.calibrationOffsets[stringNum] || 0\<close>.
\<close>

definition getCalibrationOffset :: "(nat \<rightharpoonup> jsnum) \<Rightarrow> nat \<Rightarrow> jsnum" where
  "getCalibrationOffset calibrationOffsets stringNum =
     (case calibrationOffsets stringNum of
        None \<Rightarrow> Fin 0
      | Some v \<Rightarrow> if js_truthy v then v else Fin 0)"

definition getCalibratedTargetFrequency :: "(nat \<rightharpoonup> jsnum) \<Rightarrow> jsnum \<Rightarrow> nat \<Rightarrow> jsnum" where
  "getCalibratedTargetFrequency calibrationOffsets targetFreq stringNum =
     (let offsetCents = getCalibrationOffset calibrationOffsets stringNum
      in js_mul targetFreq (js_pow2 (js_div offsetCents (Fin 1200))))"


section \<open>The YIN estimator (class AudioPitchDetector)\<close>

text \<open>
  The settings the constructor stores on the detector, and the object \<open>yinDetect\<close> returns.
  The sample buffer is a list of finite samples; the sample rate is any number.
\<close>

record detector =
  fftSize :: nat
  minFrequency :: jsnum
  maxFrequency :: jsnum
  yinThreshold :: jsnum
  yinProbabilityThreshold :: jsnum

definition AudioPitchDetector :: detector where
  "AudioPitchDetector =
     \<lparr> fftSize = 2048,
       minFrequency = Fin 70,
       maxFrequency = Fin 1200,
       yinThreshold = Fin (15 / 100),
       yinProbabilityThreshold = Fin (8 / 10) \<rparr>"

record pitch_result =
  frequency :: jsnum
  probability :: jsnum

definition no_detection :: pitch_result where
  "no_detection = \<lparr> frequency = Fin (- 1), probability = Fin 0 \<rparr>"

text \<open>The RMS check: the loop summing the squares, then \<open>Math.sqrt(rms / bufferSize)\<close>.\<close>

definition sumSquares :: "real list \<Rightarrow> real" where
  "sumSquares buffer = fold (\<lambda>i rms. rms + buffer ! i * buffer ! i) [0 ..< length buffer] 0"

definition rootMeanSquare :: "real list \<Rightarrow> jsnum" where
  "rootMeanSquare buffer = js_sqrt (js_div (Fin (sumSquares buffer)) (Fin (real (length buffer))))"

text \<open>The inner loop: the difference function \<open>d(tau)\<close> over the first half of the buffer.\<close>

definition difference :: "real list \<Rightarrow> nat \<Rightarrow> real" where
  "difference buffer tau =
     fold (\<lambda>i delta. let diff = buffer ! i - buffer ! (i + tau) in delta + diff * diff)
          [0 ..< length buffer div 2] 0"

text \<open>
  The outer loop over \<open>tau\<close>, carrying \<open>runningSum\<close> and the array \<open>yinBuffer\<close>.  The
  array starts as \<open>halfBuffer\<close> zeros with \<open>yinBuffer[0] = 1\<close>; a write outside a typed
  array is ignored, as list update is.
\<close>

definition normalizeStep :: "real list \<Rightarrow> nat \<Rightarrow> real \<times> jsnum list \<Rightarrow> real \<times> jsnum list" where
  "normalizeStep buffer tau st =
     (let delta = difference buffer tau;
          runningSum = fst st + delta
      in (runningSum, (snd st)[tau := js_div (Fin (delta * real tau)) (Fin runningSum)]))"

definition computeYinBuffer :: "real list \<Rightarrow> jsnum list" where
  "computeYinBuffer buffer =
     (let halfBuffer = length buffer div 2
      in snd (fold (normalizeStep buffer) [1 ..< halfBuffer]
                   (0, (replicate halfBuffer (Fin 0))[0 := Fin 1])))"

text \<open>The \<open>while\<close> loop that walks down to the local minimum of the dip.\<close>

function localMinimum :: "jsnum list \<Rightarrow> nat \<Rightarrow> nat \<Rightarrow> nat" where
  "localMinimum yinBuffer halfBuffer tau =
     (if tau + 1 < halfBuffer \<and> js_lt (yinBuffer ! (tau + 1)) (yinBuffer ! tau)
      then localMinimum yinBuffer halfBuffer (tau + 1)
      else tau)"
  by pat_completeness auto
termination
  by (relation "measure (\<lambda>(yinBuffer, halfBuffer, tau). halfBuffer - tau)") auto

declare localMinimum.simps [simp del]

text \<open>
  The \<open>for\<close> loop of the absolute threshold step, from the given \<open>tau\<close>; \<open>None\<close> stands for
  the sentinel \<open>tauEstimate = -1\<close> that is left when the loop ends without a \<open>break\<close>.
\<close>

function absoluteThreshold :: "jsnum \<Rightarrow> jsnum list \<Rightarrow> nat \<Rightarrow> nat \<Rightarrow> nat option" where
  "absoluteThreshold threshold yinBuffer halfBuffer tau =
     (if tau < halfBuffer
      then if js_lt (yinBuffer ! tau) threshold
           then Some (localMinimum yinBuffer halfBuffer tau)
           else absoluteThreshold threshold yinBuffer halfBuffer (tau + 1)
      else None)"
  by pat_completeness auto
termination
  by (relation "measure (\<lambda>(threshold, yinBuffer, halfBuffer, tau). halfBuffer - tau)") auto

declare absoluteThreshold.simps [simp del]

text \<open>Parabolic interpolation around \<open>tauEstimate\<close>.\<close>

definition parabolic :: "jsnum list \<Rightarrow> nat \<Rightarrow> nat \<Rightarrow> jsnum" where
  "parabolic yinBuffer halfBuffer tauEstimate =
     (if 0 < tauEstimate \<and> int tauEstimate < int halfBuffer - 1
      then
        let s0 = yinBuffer ! (tauEstimate - 1);
            s1 = yinBuffer ! tauEstimate;
            s2 = yinBuffer ! (tauEstimate + 1);
            adjustment = js_div (js_sub s2 s0)
                                (js_mul (Fin 2) (js_sub (js_sub (js_mul (Fin 2) s1) s2) s0))
        in if isFinite adjustment then js_add (Fin (real tauEstimate)) adjustment
           else Fin (real tauEstimate)
      else Fin (real tauEstimate))"

definition yinDetect :: "detector \<Rightarrow> real list \<Rightarrow> jsnum \<Rightarrow> pitch_result" where
  "yinDetect this buffer sampleRate =
     (let bufferSize = length buffer;
          halfBuffer = bufferSize div 2;
          rms = rootMeanSquare buffer
      in if js_lt rms (Fin (1 / 100)) then no_detection
         else
           let yinBuffer = computeYinBuffer buffer
           in case absoluteThreshold (yinThreshold this) yinBuffer halfBuffer 2 of
                None \<Rightarrow> no_detection
              | Some tauEstimate \<Rightarrow>
                  let betterTau = parabolic yinBuffer halfBuffer tauEstimate;
                      frequency = js_div sampleRate betterTau;
                      probability = js_sub (Fin 1) (yinBuffer ! tauEstimate)
                  in if js_lt frequency (minFrequency this) \<or> js_gt frequency (maxFrequency this)
                     then no_detection
                     else \<lparr> frequency = frequency, probability = probability \<rparr>)"


text \<open>
  Names for the intermediate values of one run of \<open>yinDetect\<close>: the lag the threshold
  step settles on, and the frequency computed from it.
\<close>

definition tauEstimateOf :: "detector \<Rightarrow> real list \<Rightarrow> nat option" where
  "tauEstimateOf this buffer =
     absoluteThreshold (yinThreshold this) (computeYinBuffer buffer) (length buffer div 2) 2"

definition frequencyAt :: "real list \<Rightarrow> jsnum \<Rightarrow> nat \<Rightarrow> jsnum" where
  "frequencyAt buffer sampleRate tauEstimate =
     js_div sampleRate (parabolic (computeYinBuffer buffer) (length buffer div 2) tauEstimate)"


section \<open>Machine arithmetic\<close>

text \<open>
  The definitions above compute with exact reals.  The program computes with IEEE doubles:
  the result of \<open>+\<close>, \<open>-\<close>, \<open>*\<close>, \<open>/\<close> and \<open>Math.sqrt\<close> on finite operands is the exact
  result rounded to a double, \<open>Math.log2\<close> returns an approximation chosen by the
  implementation, and a store into a \<open>Float32Array\<close> rounds the double to single
  precision.  A \<open>machine\<close> gives these three roundings; the functions of this section are
  the functions of the program with every arithmetic result passed through them.
  Comparisons, \<open>Math.abs\<close>, \<open>Math.round\<close>, \<open>Math.floor\<close>, \<open>%\<close> and the arithmetic of
  non-finite operands are exact and are taken from the first section.  Integer literals
  are exact; a decimal literal \<open>q\<close> is the double \<open>rnd q\<close>.
\<close>

record machine =
  rnd :: "real \<Rightarrow> jsnum"
  rnd32 :: "real \<Rightarrow> jsnum"
  lg2 :: "real \<Rightarrow> jsnum"

fun m_add :: "machine \<Rightarrow> jsnum \<Rightarrow> jsnum \<Rightarrow> jsnum" where
  "m_add M (Fin x) (Fin y) = rnd M (x + y)"
| "m_add M a b = js_add a b"

fun m_sub :: "machine \<Rightarrow> jsnum \<Rightarrow> jsnum \<Rightarrow> jsnum" where
  "m_sub M (Fin x) (Fin y) = rnd M (x - y)"
| "m_sub M a b = js_sub a b"

fun m_mul :: "machine \<Rightarrow> jsnum \<Rightarrow> jsnum \<Rightarrow> jsnum" where
  "m_mul M (Fin x) (Fin y) = rnd M (x * y)"
| "m_mul M a b = js_mul a b"

fun m_div :: "machine \<Rightarrow> jsnum \<Rightarrow> jsnum \<Rightarrow> jsnum" where
  "m_div M (Fin x) (Fin y) = (if y = 0 then inf_of_sign x else rnd M (x / y))"
| "m_div M a b = js_div a b"

fun m_sqrt :: "machine \<Rightarrow> jsnum \<Rightarrow> jsnum" where
  "m_sqrt M (Fin x) = (if x < 0 then NaN else rnd M (sqrt x))"
| "m_sqrt M a = js_sqrt a"

fun m_log2 :: "machine \<Rightarrow> jsnum \<Rightarrow> jsnum" where
  "m_log2 M (Fin x) = (if x < 0 then NaN else if x = 0 then NegInf else lg2 M x)"
| "m_log2 M a = js_log2 a"

text \<open>Writing a number into a \<open>Float32Array\<close> element.\<close>

fun m_store32 :: "machine \<Rightarrow> jsnum \<Rightarrow> jsnum" where
  "m_store32 M (Fin x) = rnd32 M x"
| "m_store32 M a = a"

text \<open>The machine that does not round: on it the functions below are those above.\<close>

definition exact :: machine where
  "exact = \<lparr> rnd = Fin, rnd32 = Fin, lg2 = (\<lambda>x. Fin (log 2 x)) \<rparr>"

text \<open>
  Rounding to the nearest binary floating-point number with \<open>p\<close> significant bits and
  least exponent \<open>emin\<close>, ties to even; a rounded value of magnitude \<open>2^1024\<close> (double) or
  \<open>2^128\<close> (single) or more is an infinity.
\<close>

definition round_even :: "real \<Rightarrow> int" where
  "round_even x =
     (let f = \<lfloor>x\<rfloor>; r = x - of_int f
      in if r < 1 / 2 then f else if 1 / 2 < r then f + 1 else if even f then f else f + 1)"

definition round_float :: "nat \<Rightarrow> int \<Rightarrow> real \<Rightarrow> real" where
  "round_float p emin x =
     (let e = max emin \<lfloor>log 2 \<bar>x\<bar>\<rfloor>;
          u = 2 powr of_int (e + 1 - int p)
      in of_int (round_even (x / u)) * u)"

definition binary64 :: "real \<Rightarrow> jsnum" where
  "binary64 x =
     (let y = round_float 53 (- 1022) x in if 2 ^ 1024 \<le> \<bar>y\<bar> then inf_of_sign x else Fin y)"

definition binary32 :: "real \<Rightarrow> jsnum" where
  "binary32 x =
     (let y = round_float 24 (- 126) x in if 2 ^ 128 \<le> \<bar>y\<bar> then inf_of_sign x else Fin y)"

text \<open>
  The IEEE machine.  Its \<open>Math.log2\<close> is the correctly rounded logarithm; an implementation
  may be less accurate, and the theorems below that hold for every machine, or for every
  machine of a stated accuracy, do not depend on this choice.
\<close>

definition ieee :: machine where
  "ieee = \<lparr> rnd = binary64, rnd32 = binary32, lg2 = (\<lambda>x. binary64 (log 2 x)) \<rparr>"

text \<open>
  What the theorems below ask of a machine.  \<open>accurate\<close>: integers up to \<open>2^53\<close> are
  not rounded, a result of magnitude at most \<open>2^1000\<close> is finite with relative error at
  most \<open>2^-52\<close> (absolute error \<open>2^-1000\<close> near zero), and \<open>Math.log2\<close> is within
  \<open>2^-40\<close> of the logarithm on arguments between \<open>2^-10\<close> and \<open>2^10\<close>.  \<open>sound\<close>: rounding a
  value that is not negative gives a value that is not negative, and rounding a value of the
  unit interval gives a value of the unit interval.
\<close>

definition accurate :: "machine \<Rightarrow> bool" where
  "accurate M \<longleftrightarrow>
     (\<forall>n::int. \<bar>n\<bar> \<le> 2 ^ 53 \<longrightarrow> rnd M (of_int n) = Fin (of_int n)) \<and>
     (\<forall>x. \<bar>x\<bar> \<le> 2 ^ 1000 \<longrightarrow>
          (\<exists>y. rnd M x = Fin y \<and> \<bar>y - x\<bar> \<le> \<bar>x\<bar> / 2 ^ 52 + 1 / 2 ^ 1000)) \<and>
     (\<forall>x. 1 / 2 ^ 10 \<le> x \<and> x \<le> 2 ^ 10 \<longrightarrow>
          (\<exists>y. lg2 M x = Fin y \<and> \<bar>y - log 2 x\<bar> \<le> 1 / 2 ^ 40))"

definition nonneg :: "jsnum \<Rightarrow> bool" where
  "nonneg a = (case a of Fin x \<Rightarrow> 0 \<le> x | PosInf \<Rightarrow> True | _ \<Rightarrow> False)"

definition sound :: "machine \<Rightarrow> bool" where
  "sound M \<longleftrightarrow>
     (\<forall>x. 0 \<le> x \<longrightarrow> nonneg (rnd M x)) \<and>
     (\<forall>x. 0 \<le> x \<longrightarrow> nonneg (rnd32 M x)) \<and>
     (\<forall>x. 0 \<le> x \<and> x \<le> 1 \<longrightarrow> (\<exists>y. rnd M x = Fin y \<and> 0 \<le> y \<and> y \<le> 1))"

text \<open>\<open>frequencyToNote\<close> on a machine; \<open>midiValue\<close> is the argument of \<open>Math.round\<close>.\<close>

definition midiValue :: "machine \<Rightarrow> jsnum \<Rightarrow> jsnum" where
  "midiValue M freq = m_add M (m_mul M (Fin 12) (m_log2 M (m_div M freq (Fin 440)))) (Fin 69)"

definition frequencyToNoteM :: "machine \<Rightarrow> jsnum \<Rightarrow> note_info option" where
  "frequencyToNoteM M freq =
     (if js_lt freq (Fin 20) \<or> js_gt freq (Fin 5000) then None
      else
        let midiNote = js_round (midiValue M freq);
            noteIndex = js_rem (m_add M (js_rem midiNote (Fin 12)) (Fin 12)) (Fin 12)
        in Some \<lparr> noteName = js_index NOTE_NAMES noteIndex,
                  midiNote = midiNote,
                  octave = m_sub M (js_floor (m_div M midiNote (Fin 12))) (Fin 1) \<rparr>)"

text \<open>
  \<open>isNoteMatch(detectedFreq, targetFreq, toleranceCents = 50)\<close> on a machine.  A missing
  \<open>detectedFreq\<close> (\<open>undefined\<close> or \<open>null\<close>) is \<open>None\<close>; an omitted tolerance is \<open>None\<close>
  and takes the default.  \<open>centsDifference\<close> is the local constant of that name.
\<close>

definition centsDifference :: "machine \<Rightarrow> jsnum \<Rightarrow> jsnum \<Rightarrow> jsnum" where
  "centsDifference M detectedFreq targetFreq =
     m_mul M (Fin 1200) (m_log2 M (m_div M detectedFreq targetFreq))"

definition isNoteMatch :: "machine \<Rightarrow> jsnum option \<Rightarrow> jsnum \<Rightarrow> jsnum option \<Rightarrow> bool" where
  "isNoteMatch M detectedFreq targetFreq toleranceArg =
     (let toleranceCents = (case toleranceArg of None \<Rightarrow> Fin 50 | Some t \<Rightarrow> t)
      in case detectedFreq of
           None \<Rightarrow> False
         | Some d \<Rightarrow>
             if \<not> js_truthy d \<or> js_lt d (Fin 20) then False
             else js_le (js_abs (centsDifference M d targetFreq)) toleranceCents)"

text \<open>
  The YIN estimator on a machine, part by part as above.  The constructor's decimal
  literals \<open>0.15\<close> and \<open>0.8\<close>, and the \<open>0.01\<close> of the RMS check, are doubles.
\<close>

definition AudioPitchDetectorM :: "machine \<Rightarrow> detector" where
  "AudioPitchDetectorM M =
     \<lparr> fftSize = 2048,
       minFrequency = Fin 70,
       maxFrequency = Fin 1200,
       yinThreshold = rnd M (15 / 100),
       yinProbabilityThreshold = rnd M (8 / 10) \<rparr>"

definition sumSquaresM :: "machine \<Rightarrow> real list \<Rightarrow> jsnum" where
  "sumSquaresM M buffer =
     fold (\<lambda>i rms. m_add M rms (m_mul M (Fin (buffer ! i)) (Fin (buffer ! i))))
          [0 ..< length buffer] (Fin 0)"

definition rootMeanSquareM :: "machine \<Rightarrow> real list \<Rightarrow> jsnum" where
  "rootMeanSquareM M buffer =
     m_sqrt M (m_div M (sumSquaresM M buffer) (Fin (real (length buffer))))"

definition differenceM :: "machine \<Rightarrow> real list \<Rightarrow> nat \<Rightarrow> jsnum" where
  "differenceM M buffer tau =
     fold (\<lambda>i delta. let diff = m_sub M (Fin (buffer ! i)) (Fin (buffer ! (i + tau)))
                      in m_add M delta (m_mul M diff diff))
          [0 ..< length buffer div 2] (Fin 0)"

definition normalizeStepM ::
  "machine \<Rightarrow> real list \<Rightarrow> nat \<Rightarrow> jsnum \<times> jsnum list \<Rightarrow> jsnum \<times> jsnum list" where
  "normalizeStepM M buffer tau st =
     (let delta = differenceM M buffer tau;
          runningSum = m_add M (fst st) delta
      in (runningSum,
          (snd st)[tau := m_store32 M (m_div M (m_mul M delta (Fin (real tau))) runningSum)]))"

definition computeYinBufferM :: "machine \<Rightarrow> real list \<Rightarrow> jsnum list" where
  "computeYinBufferM M buffer =
     (let halfBuffer = length buffer div 2
      in snd (fold (normalizeStepM M buffer) [1 ..< halfBuffer]
                   (Fin 0, (replicate halfBuffer (Fin 0))[0 := Fin 1])))"

definition parabolicM :: "machine \<Rightarrow> jsnum list \<Rightarrow> nat \<Rightarrow> nat \<Rightarrow> jsnum" where
  "parabolicM M yinBuffer halfBuffer tauEstimate =
     (if 0 < tauEstimate \<and> int tauEstimate < int halfBuffer - 1
      then
        let s0 = yinBuffer ! (tauEstimate - 1);
            s1 = yinBuffer ! tauEstimate;
            s2 = yinBuffer ! (tauEstimate + 1);
            adjustment = m_div M (m_sub M s2 s0)
                               (m_mul M (Fin 2) (m_sub M (m_sub M (m_mul M (Fin 2) s1) s2) s0))
        in if isFinite adjustment then m_add M (Fin (real tauEstimate)) adjustment
           else Fin (real tauEstimate)
      else Fin (real tauEstimate))"

definition yinDetectM :: "machine \<Rightarrow> detector \<Rightarrow> real list \<Rightarrow> jsnum \<Rightarrow> pitch_result" where
  "yinDetectM M this buffer sampleRate =
     (let bufferSize = length buffer;
          halfBuffer = bufferSize div 2;
          rms = rootMeanSquareM M buffer
      in if js_lt rms (rnd M (1 / 100)) then no_detection
         else
           let yinBuffer = computeYinBufferM M buffer
           in case absoluteThreshold (yinThreshold this) yinBuffer halfBuffer 2 of
                None \<Rightarrow> no_detection
              | Some tauEstimate \<Rightarrow>
                  let betterTau = parabolicM M yinBuffer halfBuffer tauEstimate;
                      frequency = m_div M sampleRate betterTau;
                      probability = m_sub M (Fin 1) (yinBuffer ! tauEstimate)
                  in if js_lt frequency (minFrequency this) \<or> js_gt frequency (maxFrequency this)
                     then no_detection
                     else \<lparr> frequency = frequency, probability = probability \<rparr>)"

text \<open>The chosen lag and the computed frequency of a run on a machine.\<close>

definition tauEstimateOfM :: "machine \<Rightarrow> real list \<Rightarrow> nat option" where
  "tauEstimateOfM M buffer =
     absoluteThreshold (rnd M (15 / 100)) (computeYinBufferM M buffer) (length buffer div 2) 2"

definition frequencyAtM :: "machine \<Rightarrow> real list \<Rightarrow> jsnum \<Rightarrow> nat \<Rightarrow> jsnum" where
  "frequencyAtM M buffer sampleRate tauEstimate =
     m_div M sampleRate (parabolicM M (computeYinBufferM M buffer) (length buffer div 2) tauEstimate)"

text \<open>
  The value the program holds for \<open>d'(tau)\<close>: the running sum and the quotient are computed
  in double arithmetic, and the quotient is rounded to single precision when it is stored.
\<close>

definition runningSumM :: "machine \<Rightarrow> real list \<Rightarrow> nat \<Rightarrow> jsnum" where
  "runningSumM M buffer tau =
     fold (\<lambda>j runningSum. m_add M runningSum (differenceM M buffer j)) [1 ..< Suc tau] (Fin 0)"

definition storedCmnd :: "machine \<Rightarrow> real list \<Rightarrow> nat \<Rightarrow> jsnum" where
  "storedCmnd M buffer tau =
     (if tau = 0 then Fin 1
      else m_store32 M (m_div M (m_mul M (differenceM M buffer tau) (Fin (real tau)))
                              (runningSumM M buffer tau)))"


section \<open>The quantities of the design document\<close>

text \<open>
  The difference function \<open>d(tau)\<close>, the sum of \<open>(x[i] - x[i+tau])\<^sup>2\<close> over the first half
  of the buffer, and the cumulative-mean-normalized difference
  \<open>d'(tau) = d(tau) * tau / (d(1) + ... + d(tau))\<close> with \<open>d'(0) = 1\<close>, as the design
  document writes them.  The quotient is the quotient of the language, so \<open>0/0\<close> is NaN.
\<close>

definition spec_difference :: "real list \<Rightarrow> nat \<Rightarrow> real" where
  "spec_difference x tau = (\<Sum>i \<leftarrow> [0 ..< length x div 2]. (x ! i - x ! (i + tau))\<^sup>2)"

definition spec_cmnd :: "real list \<Rightarrow> nat \<Rightarrow> jsnum" where
  "spec_cmnd x tau =
     (if tau = 0 then Fin 1
      else js_div (Fin (spec_difference x tau * real tau))
                  (Fin (\<Sum>j \<leftarrow> [1 ..< Suc tau]. spec_difference x j)))"

definition spec_rms :: "real list \<Rightarrow> jsnum" where
  "spec_rms x = js_sqrt (js_div (Fin (\<Sum>v \<leftarrow> x. v\<^sup>2)) (Fin (real (length x))))"

text \<open>The thirteen positions of one string, in fret order (empty for a string without a row).\<close>

definition fretboardRow :: "nat \<Rightarrow> position list" where
  "fretboardRow string =
     (case OPEN_STRINGS string of
        None \<Rightarrow> []
      | Some openString \<Rightarrow> map (positionFor openString string) [0 ..< 13])"

text \<open>The sum \<open>d(1) + ... + d(tau)\<close>: the value of \<open>runningSum\<close> after the iteration for \<open>tau\<close>.\<close>

definition runningSumAt :: "real list \<Rightarrow> nat \<Rightarrow> real" where
  "runningSumAt x tau = (\<Sum>j \<leftarrow> [1 ..< Suc tau]. spec_difference x j)"


section \<open>The note mapper\<close>

lemma js_rem_int_nonneg:
  assumes "0 \<le> m"
  shows "js_rem (Fin (of_int m)) (Fin 12) = Fin (of_int (m mod 12))"
proof -
  have "\<lfloor>real_of_int m / 12\<rfloor> = m div 12"
    using floor_divide_of_int_eq[of m 12, where ?'a = real] by simp
  moreover have "0 \<le> real_of_int m / 12" using assms by simp
  ultimately have "trunc (real_of_int m / 12) = m div 12" by (simp add: trunc_def)
  moreover have "real_of_int m - 12 * real_of_int (m div 12) = real_of_int (m mod 12)"
    by (simp add: minus_mult_div_eq_mod[symmetric] algebra_simps)
  ultimately show ?thesis by simp
qed

lemma log2_inv32: "log 2 (1/32) = -5"
proof -
  have "(1::real)/32 = 2 powr (-5)" by (simp add: powr_minus_divide)
  thus ?thesis by (simp only: log_powr_cancel)
qed

lemma midi_lower:
  assumes "20 \<le> (f::real)"
  shows "0 \<le> round (12 * log 2 (f / 440) + 69)"
proof -
  have "1/32 < f / 440" using assms by simp
  hence "log 2 (1/32) < log 2 (f / 440)" using assms by (subst log_less_cancel_iff) auto
  hence "0 \<le> 12 * log 2 (f / 440) + 69" by (simp add: log2_inv32)
  thus ?thesis by (simp add: round_def)
qed

lemma js_index_NOTE_NAMES:
  assumes "0 \<le> i" "i < 12"
  shows "js_index NOTE_NAMES (Fin (of_int i)) = Some (NOTE_NAMES ! nat i)"
  using assms by (simp add: NOTE_NAMES_def)

lemma noteIndex_nonneg:
  assumes "0 \<le> m"
  shows "js_rem (js_add (js_rem (Fin (of_int m)) (Fin 12)) (Fin 12)) (Fin 12)
         = Fin (of_int ((m mod 12 + 12) mod 12))"
proof -
  have "js_add (js_rem (Fin (of_int m)) (Fin 12)) (Fin 12) = Fin (of_int (m mod 12 + 12))"
    by (simp only: js_rem_int_nonneg[OF assms]) simp
  moreover have "0 \<le> m mod 12 + 12" by simp
  ultimately show ?thesis by (simp only: js_rem_int_nonneg)
qed

text \<open>What \<open>frequencyToNote\<close> returns on every frequency its guard lets through.\<close>

lemma frequencyToNote_in_range:
  assumes "20 \<le> f" "f \<le> 5000"
  shows "let m = round (12 * log 2 (f / 440) + 69) in
         frequencyToNote (Fin f) =
           Some \<lparr> noteName = Some (NOTE_NAMES ! nat ((m mod 12 + 12) mod 12)),
                  midiNote = Fin (of_int m),
                  octave = Fin (of_int (\<lfloor>real_of_int m / 12\<rfloor> - 1)) \<rparr>"
proof -
  define m where "m = round (12 * log 2 (f / 440) + 69)"
  have m0: "0 \<le> m" unfolding m_def using assms(1) by (rule midi_lower)
  have mid: "js_round (js_add (js_mul (Fin 12) (js_log2 (js_div (Fin f) (Fin 440)))) (Fin 69))
        = Fin (of_int m)"
    using assms by (simp add: m_def)
  have idx: "js_index NOTE_NAMES (Fin (of_int ((m mod 12 + 12) mod 12)))
        = Some (NOTE_NAMES ! nat ((m mod 12 + 12) mod 12))"
    by (rule js_index_NOTE_NAMES) simp_all
  have oct: "js_sub (js_floor (js_div (Fin (of_int m)) (Fin 12))) (Fin 1)
        = Fin (of_int (\<lfloor>real_of_int m / 12\<rfloor> - 1))"
    by (simp add: js_sub_def)
  have "frequencyToNote (Fin f) =
           Some \<lparr> noteName = Some (NOTE_NAMES ! nat ((m mod 12 + 12) mod 12)),
                  midiNote = Fin (of_int m),
                  octave = Fin (of_int (\<lfloor>real_of_int m / 12\<rfloor> - 1)) \<rparr>"
    unfolding frequencyToNote_def Let_def mid noteIndex_nonneg[OF m0] idx oct
    using assms by (simp add: js_gt_def)
  thus ?thesis by (simp add: m_def Let_def)
qed

text \<open>
  Claim C8, as the code has it.  \<open>frequencyToNote\<close> returns \<open>null\<close> exactly when the
  frequency is below 20 or above 5000: the two bounds themselves are accepted, so the
  rejected inputs are those outside the closed interval from 20 to 5000.
\<close>

theorem frequencyToNote_null_iff:
  "(frequencyToNote (Fin f) = None) = (f < 20 \<or> 5000 < f)"
  by (simp add: frequencyToNote_def js_gt_def Let_def)

theorem frequencyToNote_null_iff_witness:
  "frequencyToNote (Fin 5000) \<noteq> None \<and> frequencyToNote (Fin 6000) = None \<and>
   frequencyToNote (Fin 10) = None"
  using frequencyToNote_null_iff[of 5000] frequencyToNote_null_iff[of 6000]
    frequencyToNote_null_iff[of 10]
  by simp

text \<open>The claim as written has the bound 20 rejected; the code returns a note record there.\<close>

theorem frequencyToNote_accepts_20:
  "frequencyToNote (Fin 20) \<noteq> None"
  by (simp add: frequencyToNote_def js_gt_def Let_def)

section \<open>Comparisons\<close>

lemma js_le_NaN [simp]: "js_le NaN b = False" "js_le a NaN = False"
  by (simp_all add: js_le_def)

lemma js_le_Fin [simp]: "js_le (Fin x) (Fin y) = (x \<le> y)"
  by (auto simp: js_le_def)

section \<open>The calibration adjuster\<close>

lemma js_mul_one [simp]: "js_mul a (Fin 1) = a"
  by (cases a) (simp_all add: inf_of_sign_def)

text \<open>
  Claim C7.  The calibrated target is the raw target times \<open>2\<close> to the power
  \<open>offset / 1200\<close>, where the offset of a string without a stored value is \<open>0\<close>, which
  leaves the target unchanged.  A stored offset is a number of cents, so not NaN.
\<close>

theorem calibrated_target_formula:
  "offsets s \<noteq> Some NaN \<Longrightarrow>
     getCalibratedTargetFrequency offsets raw s
       = js_mul raw (js_pow2 (js_div (case offsets s of None \<Rightarrow> Fin 0 | Some v \<Rightarrow> v) (Fin 1200)))
     \<and> (offsets s = None \<longrightarrow> getCalibratedTargetFrequency offsets raw s = raw)"
proof (cases "offsets s")
  case None
  then show ?thesis by (simp add: getCalibratedTargetFrequency_def getCalibrationOffset_def)
next
  case (Some v)
  assume "offsets s \<noteq> Some NaN"
  with Some have "v \<noteq> NaN" by simp
  hence "(if js_truthy v then v else Fin 0) = v" by (cases v) auto
  with Some show ?thesis by (simp add: getCalibratedTargetFrequency_def getCalibrationOffset_def)
qed

theorem calibrated_target_formula_witness:
  "[6 \<mapsto> Fin 1200] (6::nat) \<noteq> Some NaN \<and> Map.empty (1::nat) \<noteq> Some NaN \<and>
   getCalibratedTargetFrequency [6 \<mapsto> Fin 1200] (Fin 100) 6 = Fin 200 \<and>
   getCalibratedTargetFrequency Map.empty (Fin 100) 1 = Fin 100"
  using calibrated_target_formula[of "[6 \<mapsto> Fin 1200]" 6 "Fin 100"]
    calibrated_target_formula[of "Map.empty" 1 "Fin 100"]
  by simp

section \<open>The fretboard table\<close>

lemma forEach_append:
  assumes "\<And>i acc. i \<in> set js \<Longrightarrow> body i acc = Inr (acc @ g i)"
  shows "forEach js body acc = Inr (acc @ concat (map g js))"
  using assms by (induction js arbitrary: acc) simp_all

lemma inner_loop:
  assumes "OPEN_STRINGS string = Some openString"
  shows "forEach [0 ..< 13] (\<lambda>fret. pushPosition string fret) acc
         = Inr (acc @ map (positionFor openString string) [0 ..< 13])"
proof -
  have "forEach [0 ..< 13] (\<lambda>fret. pushPosition string fret) acc
        = Inr (acc @ concat (map (\<lambda>fret. [positionFor openString string fret]) [0 ..< 13]))"
    by (rule forEach_append) (simp add: pushPosition_def assms)
  thus ?thesis by (simp only: concat_map_singleton)
qed

lemma OPEN_STRINGS_dom: "string \<in> set [1 ..< 7] \<Longrightarrow> \<exists>openString. OPEN_STRINGS string = Some openString"
  by (auto simp: OPEN_STRINGS_def)

lemma generateFretboard_rows:
  "generateFretboard = Inr (concat (map fretboardRow [1 ..< 7]))"
proof -
  have "forEach [1 ..< 7] (\<lambda>string. forEach [0 ..< 13] (\<lambda>fret. pushPosition string fret)) []
        = Inr ([] @ concat (map fretboardRow [1 ..< 7]))"
  proof (rule forEach_append)
    fix i acc assume "i \<in> set [1 ..< 7::nat]"
    then obtain openString where "OPEN_STRINGS i = Some openString"
      using OPEN_STRINGS_dom by blast
    thus "forEach [0 ..< 13] (pushPosition i) acc = Inr (acc @ fretboardRow i)"
      by (simp add: inner_loop fretboardRow_def)
  qed
  thus ?thesis by (simp add: generateFretboard_def)
qed

lemma FRETBOARD_rows: "FRETBOARD = concat (map fretboardRow [1 ..< 7])"
  by (simp add: FRETBOARD_def generateFretboard_rows)

lemma length_row: "string \<in> set [1 ..< 7] \<Longrightarrow> length (fretboardRow string) = 13"
  using OPEN_STRINGS_dom[of string] by (auto simp: fretboardRow_def)

lemma length_FRETBOARD: "length FRETBOARD = 78"
proof -
  have "map (length \<circ> fretboardRow) [1 ..< 7] = map (\<lambda>_. 13) [1 ..< 7]"
    by (rule map_cong[OF refl]) (simp add: length_row del: set_upt)
  hence "sum_list (map length (map fretboardRow [1 ..< 7])) = sum_list (map (\<lambda>_. 13) [1 ..< 7::nat])"
    by (simp only: map_map)
  also have "\<dots> = 78" by (simp add: sum_list_triv)
  finally show ?thesis by (simp only: FRETBOARD_rows length_concat)
qed

lemma FRETBOARD_member:
  "p \<in> set FRETBOARD \<longleftrightarrow>
     (\<exists>string fret openString. 1 \<le> string \<and> string \<le> 6 \<and> fret \<le> 12 \<and>
        OPEN_STRINGS string = Some openString \<and> p = positionFor openString string fret)"
proof
  assume "p \<in> set FRETBOARD"
  then obtain string where s: "string \<in> set [1 ..< 7]" and p: "p \<in> set (fretboardRow string)"
    by (auto simp: FRETBOARD_rows simp del: set_upt)
  from s obtain openString where os: "OPEN_STRINGS string = Some openString"
    using OPEN_STRINGS_dom by blast
  with p obtain fret where "fret < 13" "p = positionFor openString string fret"
    by (auto simp: fretboardRow_def)
  with s os show "\<exists>string fret openString. 1 \<le> string \<and> string \<le> 6 \<and> fret \<le> 12 \<and>
        OPEN_STRINGS string = Some openString \<and> p = positionFor openString string fret"
    by (intro exI[of _ string] exI[of _ fret] exI[of _ openString]) auto
next
  assume "\<exists>string fret openString. 1 \<le> string \<and> string \<le> 6 \<and> fret \<le> 12 \<and>
        OPEN_STRINGS string = Some openString \<and> p = positionFor openString string fret"
  then obtain string fret openString where h: "1 \<le> string" "string \<le> 6" "fret \<le> 12"
        "OPEN_STRINGS string = Some openString" "p = positionFor openString string fret" by blast
  hence "p \<in> set (fretboardRow string)" by (auto simp: fretboardRow_def)
  moreover have "string \<in> set [1 ..< 7]" using h by simp
  ultimately show "p \<in> set FRETBOARD" unfolding FRETBOARD_rows by (auto simp del: set_upt)
qed

lemma positionFor_explicit:
  assumes "os_midi openString = Fin (of_int m)" "0 \<le> m"
  shows "positionFor openString string fret =
     \<lparr> pos_string = Fin (real string),
       pos_fret = Fin (real fret),
       pos_note = Some (NOTE_NAMES ! nat ((m + int fret) mod 12)),
       pos_octave = Fin (of_int (\<lfloor>real_of_int (m + int fret) / 12\<rfloor> - 1)),
       pos_frequency = Fin (440 * 2 powr ((real_of_int (m + int fret) - 69) / 12)),
       pos_midiNote = Fin (of_int (m + int fret)) \<rparr>"
proof -
  have mn: "js_add (os_midi openString) (Fin (real fret)) = Fin (of_int (m + int fret))"
    by (simp add: assms(1))
  have nn: "0 \<le> m + int fret" using assms(2) by simp
  have idx: "js_index NOTE_NAMES (js_rem (Fin (of_int (m + int fret))) (Fin 12))
        = Some (NOTE_NAMES ! nat ((m + int fret) mod 12))"
    by (simp only: js_rem_int_nonneg[OF nn]) (rule js_index_NOTE_NAMES, simp_all)
  have oct: "js_sub (js_floor (js_div (Fin (of_int (m + int fret))) (Fin 12))) (Fin 1)
        = Fin (of_int (\<lfloor>real_of_int (m + int fret) / 12\<rfloor> - 1))"
    by (simp add: js_sub_def)
  have fr: "js_mul (Fin 440) (js_pow2 (js_div (js_sub (Fin (of_int (m + int fret))) (Fin 69)) (Fin 12)))
        = Fin (440 * 2 powr ((real_of_int (m + int fret) - 69) / 12))"
    by (simp add: js_sub_def)
  show ?thesis
    unfolding positionFor_def Let_def mn idx oct fr ..
qed

lemma OPEN_STRINGS_rows:
  assumes "OPEN_STRINGS string = Some openString"
  shows "(string = 1 \<and> os_midi openString = Fin 64 \<and> os_frequency openString = Fin (32963 / 100)) \<or>
         (string = 2 \<and> os_midi openString = Fin 59 \<and> os_frequency openString = Fin (24694 / 100)) \<or>
         (string = 3 \<and> os_midi openString = Fin 55 \<and> os_frequency openString = Fin 196) \<or>
         (string = 4 \<and> os_midi openString = Fin 50 \<and> os_frequency openString = Fin (14683 / 100)) \<or>
         (string = 5 \<and> os_midi openString = Fin 45 \<and> os_frequency openString = Fin 110) \<or>
         (string = 6 \<and> os_midi openString = Fin 40 \<and> os_frequency openString = Fin (8241 / 100))"
  using assms by (auto simp: OPEN_STRINGS_def split: if_splits)

lemma OPEN_STRINGS_midi:
  assumes "OPEN_STRINGS string = Some openString"
  shows "\<exists>m. os_midi openString = Fin (of_int m) \<and> 40 \<le> m \<and> m \<le> 64"
proof -
  from OPEN_STRINGS_rows[OF assms]
  consider "os_midi openString = Fin (of_int 64)" | "os_midi openString = Fin (of_int 59)"
    | "os_midi openString = Fin (of_int 55)" | "os_midi openString = Fin (of_int 50)"
    | "os_midi openString = Fin (of_int 45)" | "os_midi openString = Fin (of_int 40)"
    by auto
  thus ?thesis
    by cases (rule exI[of _ 64], simp, rule exI[of _ 59], simp, rule exI[of _ 55], simp,
              rule exI[of _ 50], simp, rule exI[of _ 45], simp, rule exI[of _ 40], simp)
qed

text \<open>Comparing a rational with a twelfth root of a power of two.\<close>

lemma powr_twelfth_power: "(2 powr (k / 12)) ^ 12 = (2::real) powr k"
proof -
  have "(2 powr (k / 12)) ^ 12 = (2 powr (k / 12)) powr (real 12)"
    by (subst powr_realpow) simp_all
  also have "\<dots> = 2 powr k" by (simp add: powr_powr)
  finally show ?thesis .
qed

lemma pow2_neg: "(2::real) powr (- real n) = 1 / 2 ^ n"
  by (simp add: powr_minus_divide powr_realpow)

lemma less_twelfth_root:
  fixes a b :: real
  assumes "0 < b" "0 \<le> a" "a ^ 12 * 2 ^ n < b ^ 12"
  shows "a / b < 2 powr (- real n / 12)"
proof (rule power_less_imp_less_base[where n = 12])
  have "(a / b) ^ 12 = a ^ 12 / b ^ 12" by (simp add: power_divide)
  also have "\<dots> < 1 / 2 ^ n" using assms by (simp add: field_simps)
  also have "\<dots> = (2 powr (- real n / 12)) ^ 12"
    by (simp only: powr_twelfth_power pow2_neg)
  finally show "(a / b) ^ 12 < (2 powr (- real n / 12)) ^ 12" .
  show "0 \<le> 2 powr (- real n / 12)" by simp
qed

lemma twelfth_root_less:
  fixes a b :: real
  assumes "0 < b" "0 \<le> a" "b ^ 12 < a ^ 12 * 2 ^ n"
  shows "2 powr (- real n / 12) < a / b"
proof (rule power_less_imp_less_base[where n = 12])
  have "(2 powr (- real n / 12)) ^ 12 = 1 / 2 ^ n"
    by (simp only: powr_twelfth_power pow2_neg)
  also have "\<dots> < a ^ 12 / b ^ 12" using assms by (simp add: field_simps)
  also have "\<dots> = (a / b) ^ 12" by (simp add: power_divide)
  finally show "(2 powr (- real n / 12)) ^ 12 < (a / b) ^ 12" .
  show "0 \<le> a / b" using assms by simp
qed

lemma E4_bounds: "(329625 / 1000 :: real) < 440 * 2 powr ((64 - 69) / 12)" "440 * 2 powr ((64 - 69) / 12) < (329635 / 1000 :: real)"
proof -
  have "(329625 / 440000 :: real) < 2 powr (- real 5 / 12)"
    by (rule less_twelfth_root) simp_all
  thus "(329625 / 1000 :: real) < 440 * 2 powr ((64 - 69) / 12)" by simp
  have "2 powr (- real 5 / 12) < (329635 / 440000 :: real)"
    by (rule twelfth_root_less) simp_all
  thus "440 * 2 powr ((64 - 69) / 12) < (329635 / 1000 :: real)" by simp
qed

lemma tabulated_row:
  fixes a :: real
  assumes "5 \<le> a" "(a - 5) ^ 12 * 2 ^ n < 440000 ^ 12" "440000 ^ 12 < (a + 5) ^ 12 * 2 ^ n"
  shows "\<bar>440 * 2 powr (- real n / 12) - a / 1000\<bar> < 5 / 1000"
proof -
  have "(a - 5) / 440000 < 2 powr (- real n / 12)"
    using assms by (intro less_twelfth_root) simp_all
  moreover have "2 powr (- real n / 12) < (a + 5) / 440000"
    using assms by (intro twelfth_root_less) simp_all
  ultimately show ?thesis by (simp add: field_simps abs_less_iff)
qed

lemma tabulated_close:
  assumes "OPEN_STRINGS string = Some openString"
    and "os_midi openString = Fin (of_int m)" and "os_frequency openString = Fin ref"
  shows "\<bar>440 * 2 powr ((real_of_int m - 69) / 12) - ref\<bar> < 5 / 1000"
proof -
  have r1: "\<bar>440 * 2 powr (- real 5 / 12) - 329630 / 1000\<bar> < (5 / 1000 :: real)"
    by (rule tabulated_row) simp_all
  have r2: "\<bar>440 * 2 powr (- real 10 / 12) - 246940 / 1000\<bar> < (5 / 1000 :: real)"
    by (rule tabulated_row) simp_all
  have r3: "\<bar>440 * 2 powr (- real 14 / 12) - 196000 / 1000\<bar> < (5 / 1000 :: real)"
    by (rule tabulated_row) simp_all
  have r4: "\<bar>440 * 2 powr (- real 19 / 12) - 146830 / 1000\<bar> < (5 / 1000 :: real)"
    by (rule tabulated_row) simp_all
  have r5: "\<bar>440 * 2 powr (- real 24 / 12) - 110000 / 1000\<bar> < (5 / 1000 :: real)"
    by (rule tabulated_row) simp_all
  have r6: "\<bar>440 * 2 powr (- real 29 / 12) - 82410 / 1000\<bar> < (5 / 1000 :: real)"
    by (rule tabulated_row) simp_all
  from OPEN_STRINGS_rows[OF assms(1)] assms(2,3)
  consider "m = 64 \<and> ref = 32963 / 100" | "m = 59 \<and> ref = 24694 / 100" | "m = 55 \<and> ref = 196"
    | "m = 50 \<and> ref = 14683 / 100" | "m = 45 \<and> ref = 110" | "m = 40 \<and> ref = 8241 / 100"
    by auto
  thus ?thesis
  proof cases
    case 1
    hence e: "m = 64" "ref = 32963 / 100" by simp_all
    show ?thesis unfolding e using r1 by simp
  next
    case 2
    hence e: "m = 59" "ref = 24694 / 100" by simp_all
    show ?thesis unfolding e using r2 by simp
  next
    case 3
    hence e: "m = 55" "ref = 196" by simp_all
    show ?thesis unfolding e using r3 by simp
  next
    case 4
    hence e: "m = 50" "ref = 14683 / 100" by simp_all
    show ?thesis unfolding e using r4 by simp
  next
    case 5
    hence e: "m = 45" "ref = 110" by simp_all
    show ?thesis unfolding e using r5 by simp
  next
    case 6
    hence e: "m = 40" "ref = 8241 / 100" by simp_all
    show ?thesis unfolding e using r6 by simp
  qed
qed

lemma FRETBOARD_facts:
  assumes "p \<in> set FRETBOARD"
  shows "\<exists>string fret openString m ref.
      1 \<le> string \<and> string \<le> 6 \<and> fret \<le> 12 \<and> OPEN_STRINGS string = Some openString \<and>
      os_midi openString = Fin (of_int m) \<and> 40 \<le> m \<and> m \<le> 64 \<and> os_frequency openString = Fin ref \<and>
      p = positionFor openString string fret"
proof -
  from assms obtain string fret openString where h: "1 \<le> string" "string \<le> 6" "fret \<le> 12"
      "OPEN_STRINGS string = Some openString" "p = positionFor openString string fret"
    unfolding FRETBOARD_member by blast
  from OPEN_STRINGS_midi[OF h(4)] obtain m where m: "os_midi openString = Fin (of_int m)" "40 \<le> m" "m \<le> 64"
    by blast
  from OPEN_STRINGS_rows[OF h(4)] obtain ref where "os_frequency openString = Fin ref" by auto
  with h m show ?thesis by blast
qed

text \<open>
  Claim C3, as the code has it.  \<open>generateFretboard\<close> returns 78 positions.  Each one
  belongs to a string from 1 to 6 and a fret from 0 to 12; its MIDI number is the open
  string's MIDI number plus the fret, its note is \<open>NOTE_NAMES[midiNumber mod 12]\<close>, its
  octave is \<open>floor(midiNumber/12) - 1\<close>, and its frequency is
  \<open>440 * 2^((midiNumber - 69)/12)\<close>: the equal-tempered frequency of the open string,
  \<open>440 * 2^((openMidi - 69)/12)\<close>, times \<open>2^(fret/12)\<close>.  That open-string frequency is
  within 0.005 Hz of the tabulated one, which is its rounding to two decimals and which
  the generator does not read.
\<close>

theorem fretboard_positions:
  "generateFretboard = Inr FRETBOARD \<and> length FRETBOARD = 78 \<and>
   (\<forall>p \<in> set FRETBOARD. \<exists>string fret openString m ref.
      1 \<le> string \<and> string \<le> 6 \<and> fret \<le> 12 \<and> OPEN_STRINGS string = Some openString \<and>
      os_midi openString = Fin (of_int m) \<and> os_frequency openString = Fin ref \<and>
      pos_string p = Fin (real string) \<and> pos_fret p = Fin (real fret) \<and>
      pos_midiNote p = Fin (of_int (m + int fret)) \<and>
      pos_note p = Some (NOTE_NAMES ! nat ((m + int fret) mod 12)) \<and>
      pos_octave p = Fin (of_int (\<lfloor>real_of_int (m + int fret) / 12\<rfloor> - 1)) \<and>
      pos_frequency p = Fin (440 * 2 powr ((real_of_int m - 69) / 12) * 2 powr (real fret / 12)) \<and>
      \<bar>440 * 2 powr ((real_of_int m - 69) / 12) - ref\<bar> < 5 / 1000)"
proof (intro conjI ballI)
  show "generateFretboard = Inr FRETBOARD" by (simp add: FRETBOARD_def generateFretboard_rows)
  show "length FRETBOARD = 78" by (rule length_FRETBOARD)
next
  fix p assume "p \<in> set FRETBOARD"
  from FRETBOARD_facts[OF this] obtain string fret openString m ref where
    h: "1 \<le> string" "string \<le> 6" "fret \<le> 12" "OPEN_STRINGS string = Some openString"
       "os_midi openString = Fin (of_int m)" "40 \<le> m" "os_frequency openString = Fin ref"
       "p = positionFor openString string fret"
    by blast
  have m0: "0 \<le> m" using h(6) by simp
  note ex = positionFor_explicit[OF h(5) m0, of string fret]
  have fr: "(440::real) * 2 powr ((real_of_int (m + int fret) - 69) / 12)
        = 440 * 2 powr ((real_of_int m - 69) / 12) * 2 powr (real fret / 12)"
    by (simp add: powr_add[symmetric] field_simps)
  have cl: "\<bar>440 * 2 powr ((real_of_int m - 69) / 12) - ref\<bar> < 5 / 1000"
    by (rule tabulated_close[OF h(4) h(5) h(7)])
  show "\<exists>string fret openString m ref.
      1 \<le> string \<and> string \<le> 6 \<and> fret \<le> 12 \<and> OPEN_STRINGS string = Some openString \<and>
      os_midi openString = Fin (of_int m) \<and> os_frequency openString = Fin ref \<and>
      pos_string p = Fin (real string) \<and> pos_fret p = Fin (real fret) \<and>
      pos_midiNote p = Fin (of_int (m + int fret)) \<and>
      pos_note p = Some (NOTE_NAMES ! nat ((m + int fret) mod 12)) \<and>
      pos_octave p = Fin (of_int (\<lfloor>real_of_int (m + int fret) / 12\<rfloor> - 1)) \<and>
      pos_frequency p = Fin (440 * 2 powr ((real_of_int m - 69) / 12) * 2 powr (real fret / 12)) \<and>
      \<bar>440 * 2 powr ((real_of_int m - 69) / 12) - ref\<bar> < 5 / 1000"
    apply (rule exI[of _ string], rule exI[of _ fret], rule exI[of _ openString],
           rule exI[of _ m], rule exI[of _ ref])
    using h(1-5,7) cl by (simp add: h(8) ex[unfolded fr])
qed

lemma OPEN_STRINGS_1:
  "OPEN_STRINGS 1 = Some \<lparr> os_note = ''E'', os_octave = Fin 4, os_frequency = Fin (32963 / 100), os_midi = Fin 64 \<rparr>"
  "OPEN_STRINGS (Suc 0) = Some \<lparr> os_note = ''E'', os_octave = Fin 4, os_frequency = Fin (32963 / 100), os_midi = Fin 64 \<rparr>"
  by (simp_all add: OPEN_STRINGS_def)

lemma FRETBOARD_first:
  "FRETBOARD ! 0 = positionFor \<lparr> os_note = ''E'', os_octave = Fin 4, os_frequency = Fin (32963 / 100), os_midi = Fin 64 \<rparr> 1 0"
proof -
  have "[1 ..< 7] = 1 # [2 ..< 7::nat]" by (simp add: upt_conv_Cons)
  moreover have "[0 ..< 13] = 0 # [1 ..< 13::nat]" by (simp add: upt_conv_Cons)
  ultimately show ?thesis
    by (simp add: FRETBOARD_rows fretboardRow_def OPEN_STRINGS_1 del: upt_Suc)
qed

lemma FRETBOARD_first_explicit:
  "FRETBOARD ! 0 =
     \<lparr> pos_string = Fin 1, pos_fret = Fin 0, pos_note = Some ''E'', pos_octave = Fin 4,
       pos_frequency = Fin (440 * 2 powr (- 5 / 12)), pos_midiNote = Fin 64 \<rparr>"
proof -
  have "os_midi \<lparr> os_note = ''E'', os_octave = Fin 4, os_frequency = Fin (32963 / 100), os_midi = Fin 64 \<rparr> = Fin (of_int 64)"
    by simp
  from positionFor_explicit[OF this, of 1 0] show ?thesis
    by (simp add: FRETBOARD_first NOTE_NAMES_def)
qed

lemma FRETBOARD_first_mem: "FRETBOARD ! 0 \<in> set FRETBOARD"
  by (rule nth_mem) (simp add: length_FRETBOARD)

lemma E4_not_tabulated: "440 * 2 powr (- 5 / 12) \<noteq> (32963 / 100 :: real)"
proof -
  have "2 powr (- real 5 / 12) < (329628 / 440000 :: real)"
    by (rule twelfth_root_less) simp_all
  thus ?thesis by simp
qed

text \<open>
  The claim as written takes the tabulated open-string frequency as the reference.  The
  first position is the open first string, tabulated at 329.63 Hz; its generated frequency
  is \<open>440 * 2^(-5/12)\<close>, which is below 329.628.
\<close>

theorem fretboard_frequency_not_tabulated:
  "pos_string (FRETBOARD ! 0) = Fin 1 \<and> pos_fret (FRETBOARD ! 0) = Fin 0 \<and>
   map_option os_frequency (OPEN_STRINGS 1) = Some (Fin (32963 / 100)) \<and>
   pos_frequency (FRETBOARD ! 0) \<noteq> Fin (32963 / 100 * 2 powr (0 / 12))"
  using E4_not_tabulated by (simp add: FRETBOARD_first_explicit OPEN_STRINGS_1)

theorem fretboard_positions_witness:
  "FRETBOARD ! 0 \<in> set FRETBOARD \<and>
   pos_midiNote (FRETBOARD ! 0) = Fin 64 \<and> pos_note (FRETBOARD ! 0) = Some ''E'' \<and>
   pos_octave (FRETBOARD ! 0) = Fin 4 \<and>
   pos_frequency (FRETBOARD ! 0) = Fin (440 * 2 powr ((64 - 69) / 12) * 2 powr (0 / 12))"
proof -
  from fretboard_positions FRETBOARD_first_mem
  obtain string fret openString m ref where
    h: "OPEN_STRINGS string = Some openString" "os_midi openString = Fin (of_int m)"
       "pos_string (FRETBOARD ! 0) = Fin (real string)" "pos_fret (FRETBOARD ! 0) = Fin (real fret)"
       "pos_midiNote (FRETBOARD ! 0) = Fin (of_int (m + int fret))"
       "pos_note (FRETBOARD ! 0) = Some (NOTE_NAMES ! nat ((m + int fret) mod 12))"
       "pos_octave (FRETBOARD ! 0) = Fin (of_int (\<lfloor>real_of_int (m + int fret) / 12\<rfloor> - 1))"
       "pos_frequency (FRETBOARD ! 0) = Fin (440 * 2 powr ((real_of_int m - 69) / 12) * 2 powr (real fret / 12))"
    by blast
  from h(3,4) have sf: "string = 1" "fret = 0" by (simp_all add: FRETBOARD_first_explicit)
  with h(1,2) have m: "m = 64" by (auto simp: OPEN_STRINGS_1)
  show ?thesis using h(5-8) FRETBOARD_first_mem unfolding sf m
    by (simp add: NOTE_NAMES_def)
qed

lemma freq_round_trip:
  assumes "40 \<le> M" "M \<le> 76"
  shows "frequencyToNote (Fin (440 * 2 powr ((real_of_int M - 69) / 12))) =
           Some \<lparr> noteName = Some (NOTE_NAMES ! nat (M mod 12)),
                  midiNote = Fin (of_int M),
                  octave = Fin (of_int (\<lfloor>real_of_int M / 12\<rfloor> - 1)) \<rparr>"
proof -
  define f :: real where "f = 440 * 2 powr ((real_of_int M - 69) / 12)"
  have "(2::real) powr (- 3) \<le> 2 powr ((real_of_int M - 69) / 12)"
    using assms by (subst powr_le_cancel_iff) simp_all
  moreover have "(2::real) powr (- 3) = 1 / 8" by (simp add: powr_minus_divide)
  ultimately have lo: "20 \<le> f" unfolding f_def by simp
  have "(2::real) powr ((real_of_int M - 69) / 12) \<le> 2 powr 1"
    using assms by (subst powr_le_cancel_iff) simp_all
  hence hi: "f \<le> 5000" unfolding f_def by simp
  have "log 2 (f / 440) = (real_of_int M - 69) / 12" unfolding f_def by simp
  hence "12 * log 2 (f / 440) + 69 = real_of_int M" by simp
  hence r: "round (12 * log 2 (f / 440) + 69) = M" by simp
  have "(M mod 12 + 12) mod 12 = M mod 12" by simp
  with frequencyToNote_in_range[OF lo hi] r show ?thesis
    unfolding f_def[symmetric] by (simp add: Let_def)
qed

text \<open>
  Claim C6.  For every position of the table, \<open>frequencyToNote\<close> of its frequency is not
  \<open>null\<close> and gives back the position's note and MIDI number.
\<close>

theorem fretboard_round_trip:
  "\<forall>p \<in> set FRETBOARD. \<exists>r. frequencyToNote (pos_frequency p) = Some r \<and>
      noteName r = pos_note p \<and> midiNote r = pos_midiNote p"
proof
  fix p assume "p \<in> set FRETBOARD"
  from FRETBOARD_facts[OF this] obtain string fret openString m where
    h: "fret \<le> 12" "os_midi openString = Fin (of_int m)" "40 \<le> m" "m \<le> 64"
       "p = positionFor openString string fret"
    by blast
  have m0: "0 \<le> m" using h(3) by simp
  have M: "40 \<le> m + int fret" "m + int fret \<le> 76" using h by simp_all
  show "\<exists>r. frequencyToNote (pos_frequency p) = Some r \<and>
      noteName r = pos_note p \<and> midiNote r = pos_midiNote p"
    unfolding h(5) positionFor_explicit[OF h(2) m0]
    by (simp only: position.simps freq_round_trip[OF M]) simp
qed

theorem fretboard_round_trip_witness:
  "FRETBOARD ! 0 \<in> set FRETBOARD \<and>
   map_option noteName (frequencyToNote (pos_frequency (FRETBOARD ! 0))) = Some (Some ''E'') \<and>
   map_option midiNote (frequencyToNote (pos_frequency (FRETBOARD ! 0))) = Some (Fin 64)"
proof -
  from fretboard_round_trip FRETBOARD_first_mem
  obtain r where "frequencyToNote (pos_frequency (FRETBOARD ! 0)) = Some r"
    "noteName r = pos_note (FRETBOARD ! 0)" "midiNote r = pos_midiNote (FRETBOARD ! 0)"
    by blast
  thus ?thesis using FRETBOARD_first_mem by (simp add: FRETBOARD_first_explicit)
qed

section \<open>The YIN estimator: the computed array\<close>

lemma fold_add_sum_list:
  "fold (\<lambda>i acc. acc + f i) js (a::real) = a + sum_list (map f js)"
  by (induction js arbitrary: a) (simp_all add: add.assoc)

lemma sumSquares_sum_list: "sumSquares buffer = (\<Sum>v \<leftarrow> buffer. v\<^sup>2)"
proof -
  have "sumSquares buffer = sum_list (map (\<lambda>i. buffer ! i * buffer ! i) [0 ..< length buffer])"
    by (simp add: sumSquares_def fold_add_sum_list)
  also have "map (\<lambda>i. buffer ! i * buffer ! i) [0 ..< length buffer]
             = map (\<lambda>v. v\<^sup>2) (map ((!) buffer) [0 ..< length buffer])"
    by (simp add: power2_eq_square)
  also have "map ((!) buffer) [0 ..< length buffer] = buffer" by (rule map_nth)
  finally show ?thesis .
qed

lemma rootMeanSquare_spec: "rootMeanSquare buffer = spec_rms buffer"
  by (simp add: rootMeanSquare_def spec_rms_def sumSquares_sum_list)

lemma difference_spec: "difference buffer tau = spec_difference buffer tau"
  by (simp add: difference_def spec_difference_def Let_def fold_add_sum_list power2_eq_square)

lemma spec_difference_nonneg: "0 \<le> spec_difference x tau"
  unfolding spec_difference_def by (rule sum_list_nonneg) auto

text \<open>Every read of the inner loop is inside the buffer.\<close>

lemma difference_reads_in_range:
  assumes "i < length buffer div 2" "tau < length buffer div 2"
  shows "i + tau < length buffer"
  using assms by linarith

lemma runningSumAt_0 [simp]: "runningSumAt x 0 = 0"
  by (simp add: runningSumAt_def)

lemma runningSumAt_Suc: "runningSumAt x (Suc tau) = runningSumAt x tau + spec_difference x (Suc tau)"
  by (simp add: runningSumAt_def)

lemma runningSumAt_nonneg: "0 \<le> runningSumAt x tau"
  unfolding runningSumAt_def by (rule sum_list_nonneg) (auto simp: spec_difference_nonneg)

lemma runningSumAt_mono: "a \<le> b \<Longrightarrow> runningSumAt x a \<le> runningSumAt x b"
proof (induction b)
  case 0 thus ?case by simp
next
  case (Suc b)
  show ?case
  proof (cases "a = Suc b")
    case True thus ?thesis by simp
  next
    case False
    with Suc have "runningSumAt x a \<le> runningSumAt x b" by simp
    thus ?thesis using spec_difference_nonneg[of x "Suc b"] by (simp add: runningSumAt_Suc)
  qed
qed

lemma spec_cmnd_pos:
  "0 < tau \<Longrightarrow> spec_cmnd x tau = js_div (Fin (spec_difference x tau * real tau)) (Fin (runningSumAt x tau))"
  by (simp add: spec_cmnd_def runningSumAt_def)

lemma yin_fold:
  assumes "k < length buffer div 2"
  shows "fst (fold (normalizeStep buffer) [1 ..< Suc k]
                (0, (replicate (length buffer div 2) (Fin 0))[0 := Fin 1])) = runningSumAt buffer k
       \<and> length (snd (fold (normalizeStep buffer) [1 ..< Suc k]
                (0, (replicate (length buffer div 2) (Fin 0))[0 := Fin 1]))) = length buffer div 2
       \<and> (\<forall>tau \<le> k. snd (fold (normalizeStep buffer) [1 ..< Suc k]
                (0, (replicate (length buffer div 2) (Fin 0))[0 := Fin 1])) ! tau = spec_cmnd buffer tau)"
  using assms
proof (induction k)
  case 0
  thus ?case by (simp add: spec_cmnd_def)
next
  case (Suc k)
  define st where "st = fold (normalizeStep buffer) [1 ..< Suc k]
                (0, (replicate (length buffer div 2) (Fin 0))[0 := Fin 1])"
  from Suc.prems have "k < length buffer div 2" by simp
  from Suc.IH[OF this] have IH: "fst st = runningSumAt buffer k" "length (snd st) = length buffer div 2"
      "\<forall>tau \<le> k. snd st ! tau = spec_cmnd buffer tau"
    unfolding st_def by blast+
  have "[1 ..< Suc (Suc k)] = [1 ..< Suc k] @ [Suc k]" by simp
  hence step: "fold (normalizeStep buffer) [1 ..< Suc (Suc k)]
                (0, (replicate (length buffer div 2) (Fin 0))[0 := Fin 1])
        = normalizeStep buffer (Suc k) st"
    unfolding st_def by (simp only: fold_append fold.simps o_apply id_apply)
  have new: "js_div (Fin (difference buffer (Suc k) * real (Suc k)))
                    (Fin (fst st + difference buffer (Suc k))) = spec_cmnd buffer (Suc k)"
    by (simp only: IH(1) difference_spec spec_cmnd_pos[OF zero_less_Suc] runningSumAt_Suc)
  have lt: "Suc k < length (snd st)" using Suc.prems IH(2) by simp
  show ?case
    unfolding step
  proof (intro conjI allI impI)
    show "fst (normalizeStep buffer (Suc k) st) = runningSumAt buffer (Suc k)"
      by (simp add: normalizeStep_def Let_def IH(1) difference_spec runningSumAt_Suc)
    show "length (snd (normalizeStep buffer (Suc k) st)) = length buffer div 2"
      by (simp add: normalizeStep_def Let_def IH(2))
    fix tau assume "tau \<le> Suc k"
    show "snd (normalizeStep buffer (Suc k) st) ! tau = spec_cmnd buffer tau"
    proof (cases "tau = Suc k")
      case True
      have "snd (normalizeStep buffer (Suc k) st) ! Suc k
            = js_div (Fin (difference buffer (Suc k) * real (Suc k)))
                    (Fin (fst st + difference buffer (Suc k)))"
        using lt by (simp add: normalizeStep_def Let_def del: of_nat_Suc)
      thus ?thesis unfolding True new .
    next
      case False
      with \<open>tau \<le> Suc k\<close> have "tau \<le> k" by simp
      with IH(3) False show ?thesis
        by (simp add: normalizeStep_def Let_def)
    qed
  qed
qed

lemma length_computeYinBuffer: "length (computeYinBuffer buffer) = length buffer div 2"
proof (cases "length buffer div 2")
  case 0
  thus ?thesis by (simp add: computeYinBuffer_def Let_def)
next
  case (Suc k)
  hence "k < length buffer div 2" by simp
  from yin_fold[OF this] show ?thesis by (simp add: computeYinBuffer_def Let_def Suc)
qed

lemma computeYinBuffer_nth:
  assumes "tau < length buffer div 2"
  shows "computeYinBuffer buffer ! tau = spec_cmnd buffer tau"
proof -
  from assms obtain k where k: "length buffer div 2 = Suc k" by (cases "length buffer div 2") auto
  hence "k < length buffer div 2" "tau \<le> k" using assms by simp_all
  from yin_fold[OF this(1)] this(2) show ?thesis by (simp add: computeYinBuffer_def Let_def k)
qed

section \<open>The YIN estimator: the threshold scan\<close>

lemma js_lt_trans: "js_lt a b \<Longrightarrow> js_lt b c \<Longrightarrow> js_lt a c"
  by (cases a; cases b; cases c) simp_all

lemma js_lt_Fin_right: "js_lt a (Fin y) \<Longrightarrow> a = NegInf \<or> (\<exists>x. a = Fin x \<and> x < y)"
  by (cases a) simp_all

lemma localMinimum_props:
  assumes "tau < halfBuffer"
  shows "tau \<le> localMinimum yb halfBuffer tau \<and> localMinimum yb halfBuffer tau < halfBuffer \<and>
         (localMinimum yb halfBuffer tau \<noteq> tau \<longrightarrow>
            js_lt (yb ! localMinimum yb halfBuffer tau) (yb ! (localMinimum yb halfBuffer tau - 1)) \<and>
            js_lt (yb ! localMinimum yb halfBuffer tau) (yb ! tau)) \<and>
         \<not> (localMinimum yb halfBuffer tau + 1 < halfBuffer \<and>
            js_lt (yb ! (localMinimum yb halfBuffer tau + 1)) (yb ! localMinimum yb halfBuffer tau))"
  using assms
proof (induction yb halfBuffer tau rule: localMinimum.induct)
  case (1 yb halfBuffer tau)
  show ?case
  proof (cases "tau + 1 < halfBuffer \<and> js_lt (yb ! (tau + 1)) (yb ! tau)")
    case True
    define t where "t = localMinimum yb halfBuffer (tau + 1)"
    have eq: "localMinimum yb halfBuffer tau = t"
      using True by (subst localMinimum.simps) (simp add: t_def)
    from "1.IH"[OF True] True
    have IH: "tau + 1 \<le> t" "t < halfBuffer"
        "t \<noteq> tau + 1 \<longrightarrow> js_lt (yb ! t) (yb ! (t - 1)) \<and> js_lt (yb ! t) (yb ! (tau + 1))"
        "\<not> (t + 1 < halfBuffer \<and> js_lt (yb ! (t + 1)) (yb ! t))"
      unfolding t_def by blast+
    have a: "js_lt (yb ! t) (yb ! (t - 1))"
    proof (cases "t = tau + 1")
      case True with \<open>tau + 1 < halfBuffer \<and> js_lt (yb ! (tau + 1)) (yb ! tau)\<close>
      show ?thesis by simp
    next
      case False with IH(3) show ?thesis by simp
    qed
    have b: "js_lt (yb ! t) (yb ! tau)"
    proof (cases "t = tau + 1")
      case True with \<open>tau + 1 < halfBuffer \<and> js_lt (yb ! (tau + 1)) (yb ! tau)\<close>
      show ?thesis by simp
    next
      case False with IH(3) True show ?thesis by (blast intro: js_lt_trans)
    qed
    show ?thesis unfolding eq using IH(1,2,4) a b by simp
  next
    case False
    hence eq: "localMinimum yb halfBuffer tau = tau"
      by (subst localMinimum.simps) auto
    show ?thesis unfolding eq using False "1.prems" by simp
  qed
qed

lemma absoluteThreshold_Some:
  assumes "absoluteThreshold thr yb halfBuffer tau0 = Some t"
  shows "\<exists>tau. tau0 \<le> tau \<and> tau < halfBuffer \<and> js_lt (yb ! tau) thr \<and>
           (\<forall>k. tau0 \<le> k \<and> k < tau \<longrightarrow> \<not> js_lt (yb ! k) thr) \<and>
           t = localMinimum yb halfBuffer tau"
  using assms
proof (induction thr yb halfBuffer tau0 rule: absoluteThreshold.induct)
  case (1 thr yb halfBuffer tau0)
  show ?case
  proof (cases "tau0 < halfBuffer")
    case False
    with "1.prems" show ?thesis by (subst (asm) absoluteThreshold.simps) simp
  next
    case lt: True
    show ?thesis
    proof (cases "js_lt (yb ! tau0) thr")
      case True
      with lt "1.prems" have "t = localMinimum yb halfBuffer tau0"
        by (subst (asm) absoluteThreshold.simps) simp
      with lt True show ?thesis by (intro exI[of _ tau0]) auto
    next
      case False
      with lt "1.prems" have "absoluteThreshold thr yb halfBuffer (tau0 + 1) = Some t"
        by (subst (asm) absoluteThreshold.simps) simp
      from "1.IH"[OF lt False this] obtain tau where
        h: "tau0 + 1 \<le> tau" "tau < halfBuffer" "js_lt (yb ! tau) thr"
           "\<forall>k. tau0 + 1 \<le> k \<and> k < tau \<longrightarrow> \<not> js_lt (yb ! k) thr"
           "t = localMinimum yb halfBuffer tau"
        by blast
      have "\<forall>k. tau0 \<le> k \<and> k < tau \<longrightarrow> \<not> js_lt (yb ! k) thr"
      proof (intro allI impI)
        fix k assume "tau0 \<le> k \<and> k < tau"
        thus "\<not> js_lt (yb ! k) thr" using h(4) False by (cases "k = tau0") auto
      qed
      with h show ?thesis by (intro exI[of _ tau]) simp
    qed
  qed
qed

lemma absoluteThreshold_None:
  "absoluteThreshold thr yb halfBuffer tau0 = None \<longleftrightarrow>
     (\<forall>k. tau0 \<le> k \<and> k < halfBuffer \<longrightarrow> \<not> js_lt (yb ! k) thr)"
proof (induction thr yb halfBuffer tau0 rule: absoluteThreshold.induct)
  case (1 thr yb halfBuffer tau0)
  show ?case
  proof (cases "tau0 < halfBuffer")
    case False
    thus ?thesis by (subst absoluteThreshold.simps) auto
  next
    case lt: True
    show ?thesis
    proof (cases "js_lt (yb ! tau0) thr")
      case True
      with lt show ?thesis by (subst absoluteThreshold.simps) auto
    next
      case False
      have "absoluteThreshold thr yb halfBuffer tau0 = absoluteThreshold thr yb halfBuffer (tau0 + 1)"
        using lt False by (subst absoluteThreshold.simps) simp
      also have "(\<dots> = None) \<longleftrightarrow> (\<forall>k. tau0 + 1 \<le> k \<and> k < halfBuffer \<longrightarrow> \<not> js_lt (yb ! k) thr)"
        by (rule "1.IH"[OF lt False])
      also have "\<dots> \<longleftrightarrow> (\<forall>k. tau0 \<le> k \<and> k < halfBuffer \<longrightarrow> \<not> js_lt (yb ! k) thr)"
      proof
        assume a: "\<forall>k. tau0 + 1 \<le> k \<and> k < halfBuffer \<longrightarrow> \<not> js_lt (yb ! k) thr"
        show "\<forall>k. tau0 \<le> k \<and> k < halfBuffer \<longrightarrow> \<not> js_lt (yb ! k) thr"
        proof (intro allI impI)
          fix k assume "tau0 \<le> k \<and> k < halfBuffer"
          thus "\<not> js_lt (yb ! k) thr" using a False by (cases "k = tau0") auto
        qed
      next
        assume "\<forall>k. tau0 \<le> k \<and> k < halfBuffer \<longrightarrow> \<not> js_lt (yb ! k) thr"
        thus "\<forall>k. tau0 + 1 \<le> k \<and> k < halfBuffer \<longrightarrow> \<not> js_lt (yb ! k) thr" by auto
      qed
      finally show ?thesis .
    qed
  qed
qed

section \<open>The YIN estimator: the chosen lag and its refinement\<close>

lemma spec_cmnd_cases:
  assumes "0 < tau"
  shows "(runningSumAt x tau = 0 \<and> spec_cmnd x tau = NaN) \<or>
         (0 < runningSumAt x tau \<and>
          spec_cmnd x tau = Fin (spec_difference x tau * real tau / runningSumAt x tau))"
proof (cases "runningSumAt x tau = 0")
  case True
  from assms obtain n where n: "tau = Suc n" by (cases tau) auto
  have "spec_difference x tau \<le> runningSumAt x tau"
    unfolding n runningSumAt_Suc using runningSumAt_nonneg[of x n] by simp
  with True spec_difference_nonneg[of x tau] have "spec_difference x tau = 0" by simp
  with True show ?thesis by (simp add: spec_cmnd_pos[OF assms] inf_of_sign_def)
next
  case False
  with runningSumAt_nonneg[of x tau] have "0 < runningSumAt x tau" by simp
  thus ?thesis by (simp add: spec_cmnd_pos[OF assms])
qed

lemma spec_cmnd_Fin:
  assumes "0 < tau" "spec_cmnd x tau = Fin v"
  shows "0 < runningSumAt x tau" "v = spec_difference x tau * real tau / runningSumAt x tau" "0 \<le> v"
proof -
  from spec_cmnd_cases[OF assms(1), of x] assms(2)
  show 1: "0 < runningSumAt x tau" and 2: "v = spec_difference x tau * real tau / runningSumAt x tau"
    by auto
  show "0 \<le> v" unfolding 2 using 1 spec_difference_nonneg[of x tau] by simp
qed

lemma spec_cmnd_finite_later:
  assumes "0 < runningSumAt x a" "a \<le> b"
  shows "\<exists>w. spec_cmnd x b = Fin w"
proof -
  have "0 < runningSumAt x b" using assms runningSumAt_mono[OF assms(2), of x] by simp
  moreover have "0 < b" using assms(1,2) by (cases b) auto
  ultimately show ?thesis using spec_cmnd_cases[of b x] by auto
qed

lemma previous_runningSum_pos:
  assumes "spec_cmnd x (Suc n) = Fin v" "v < 1"
  shows "0 < runningSumAt x n"
proof -
  from spec_cmnd_Fin[OF zero_less_Suc assms(1)]
  have S: "0 < runningSumAt x (Suc n)"
    and v: "v = spec_difference x (Suc n) * real (Suc n) / runningSumAt x (Suc n)" by simp_all
  from assms(2) S have "spec_difference x (Suc n) * real (Suc n) < runningSumAt x (Suc n)"
    unfolding v by (simp add: field_simps del: of_nat_Suc)
  moreover have "spec_difference x (Suc n) \<le> spec_difference x (Suc n) * real (Suc n)"
    using spec_difference_nonneg[of x "Suc n"] by (simp add: algebra_simps)
  ultimately show ?thesis by (simp add: runningSumAt_Suc)
qed

lemma spec_cmnd_1:
  assumes "0 < runningSumAt x 1"
  shows "spec_cmnd x 1 = Fin 1"
proof -
  have "runningSumAt x 1 = spec_difference x 1" by (simp add: runningSumAt_def)
  with assms show ?thesis by (simp add: spec_cmnd_pos)
qed

lemma chosen_lag:
  assumes "tauEstimateOf this buffer = Some t" "yinThreshold this = Fin \<theta>" "\<theta> \<le> 1"
  shows "2 \<le> t \<and> t < length buffer div 2 \<and>
         (\<exists>u v. spec_cmnd buffer (t - 1) = Fin u \<and> spec_cmnd buffer t = Fin v \<and>
                0 \<le> v \<and> v < \<theta> \<and> v < u \<and>
                (t + 1 < length buffer div 2 \<longrightarrow> (\<exists>w. spec_cmnd buffer (t + 1) = Fin w \<and> v \<le> w)))"
proof -
  define yb where "yb = computeYinBuffer buffer"
  define half where "half = length buffer div 2"
  have nth: "\<And>k. k < half \<Longrightarrow> yb ! k = spec_cmnd buffer k"
    unfolding yb_def half_def by (rule computeYinBuffer_nth)
  from assms(1,2) have "absoluteThreshold (Fin \<theta>) yb half 2 = Some t"
    by (simp add: tauEstimateOf_def yb_def half_def)
  from absoluteThreshold_Some[OF this] obtain tau where
    tau: "2 \<le> tau" "tau < half" "js_lt (yb ! tau) (Fin \<theta>)"
         "\<forall>k. 2 \<le> k \<and> k < tau \<longrightarrow> \<not> js_lt (yb ! k) (Fin \<theta>)"
         "t = localMinimum yb half tau"
    by blast
  from localMinimum_props[OF tau(2), of yb] tau(5)
  have t: "tau \<le> t" "t < half"
       "t \<noteq> tau \<longrightarrow> js_lt (yb ! t) (yb ! (t - 1)) \<and> js_lt (yb ! t) (yb ! tau)"
       "\<not> (t + 1 < half \<and> js_lt (yb ! (t + 1)) (yb ! t))"
    by simp_all
  have t2: "2 \<le> t" using tau(1) t(1) by simp
  have below: "js_lt (yb ! t) (Fin \<theta>)"
    using t(3) tau(3) by (cases "t = tau") (auto intro: js_lt_trans)
  have t0: "0 < t" using t2 by simp
  from js_lt_Fin_right[OF below] spec_cmnd_cases[OF t0, of buffer] nth[OF t(2)]
  obtain v where v: "spec_cmnd buffer t = Fin v" "v < \<theta>" by auto
  have v0: "0 \<le> v" by (rule spec_cmnd_Fin(3)[OF t0 v(1)])
  have St: "0 < runningSumAt buffer t" by (rule spec_cmnd_Fin(1)[OF t0 v(1)])
  from t2 obtain n where n: "t = Suc n" "1 \<le> n" by (cases t) auto
  have Sn: "0 < runningSumAt buffer n"
    using v assms(3) by (intro previous_runningSum_pos[of buffer n v]) (simp_all add: n)
  have n0: "0 < n" using n(2) by simp
  from spec_cmnd_cases[OF n0, of buffer] Sn
  obtain u where u: "spec_cmnd buffer n = Fin u" by auto
  have nh: "n < half" using t(2) n(1) by simp
  have vu: "v < u"
  proof (cases "t = tau")
    case False
    with t(3) have "js_lt (yb ! t) (yb ! (t - 1))" by simp
    thus ?thesis using nth[OF t(2)] nth[OF nh] v(1) u by (simp add: n(1))
  next
    case True
    show ?thesis
    proof (cases "n = 1")
      case True
      from Sn True have "0 < runningSumAt buffer 1" by simp
      hence "spec_cmnd buffer 1 = Fin 1" by (rule spec_cmnd_1)
      with u True have "u = 1" by simp
      with v(2) assms(3) show ?thesis by simp
    next
      case False
      with n(2) \<open>t = tau\<close> n(1) have "2 \<le> n \<and> n < tau" by simp
      with tau(4) have "\<not> js_lt (yb ! n) (Fin \<theta>)" by blast
      with nth[OF nh] u have "\<theta> \<le> u" by simp
      with v(2) show ?thesis by simp
    qed
  qed
  have next_ok: "t + 1 < half \<longrightarrow> (\<exists>w. spec_cmnd buffer (t + 1) = Fin w \<and> v \<le> w)"
  proof
    assume lt: "t + 1 < half"
    from spec_cmnd_finite_later[OF St, of "t + 1"] obtain w where w: "spec_cmnd buffer (t + 1) = Fin w"
      by auto
    from t(4) lt have "\<not> js_lt (yb ! (t + 1)) (yb ! t)" by simp
    with nth[OF lt] nth[OF t(2)] w v(1) have "v \<le> w" by simp
    with w show "\<exists>w. spec_cmnd buffer (t + 1) = Fin w \<and> v \<le> w" by blast
  qed
  have "spec_cmnd buffer (t - 1) = Fin u" using u n(1) by simp
  with t2 t(2) v v0 vu next_ok show ?thesis unfolding half_def by blast
qed

lemma parabolic_bounds:
  assumes "tauEstimateOf this buffer = Some t" "yinThreshold this = Fin \<theta>" "\<theta> \<le> 1"
  shows "\<exists>b. parabolic (computeYinBuffer buffer) (length buffer div 2) t = Fin b \<and>
             real t - 1 / 2 < b \<and> b \<le> real t + 1 / 2"
proof -
  from chosen_lag[OF assms] obtain u v where
    h: "2 \<le> t" "t < length buffer div 2" "spec_cmnd buffer (t - 1) = Fin u"
       "spec_cmnd buffer t = Fin v" "v < u"
       "t + 1 < length buffer div 2 \<longrightarrow> (\<exists>w. spec_cmnd buffer (t + 1) = Fin w \<and> v \<le> w)"
    by blast
  show ?thesis
  proof (cases "0 < t \<and> int t < int (length buffer div 2) - 1")
    case False
    hence "parabolic (computeYinBuffer buffer) (length buffer div 2) t = Fin (real t)"
      unfolding parabolic_def by (simp only: if_False)
    thus ?thesis by simp
  next
    case True
    hence lt: "t + 1 < length buffer div 2" by simp
    with h(6) obtain w where w: "spec_cmnd buffer (t + 1) = Fin w" "v \<le> w" by blast
    have tm: "t - 1 < length buffer div 2" using h(2) by simp
    define den where "den = 2 * (2 * v - w - u)"
    have den: "den < 0" unfolding den_def using h(5) w(2) by simp
    have adj: "js_div (js_sub (Fin w) (Fin u))
                 (js_mul (Fin 2) (js_sub (js_sub (js_mul (Fin 2) (Fin v)) (Fin w)) (Fin u)))
               = Fin ((w - u) / den)"
      using den by (simp add: js_sub_def den_def)
    have par: "parabolic (computeYinBuffer buffer) (length buffer div 2) t
               = Fin (real t + (w - u) / den)"
      unfolding parabolic_def Let_def
      by (simp only: True if_True computeYinBuffer_nth[OF tm] computeYinBuffer_nth[OF h(2)]
            computeYinBuffer_nth[OF lt] h(3) h(4) w(1) adj isFinite.simps js_add.simps simp_thms)
    have lo: "- 1 / 2 < (w - u) / den"
    proof -
      have "(w - u) / den - (- 1 / 2) = (2 * (w - u) + den) / (2 * den)"
        using den by (simp add: field_simps)
      also have "\<dots> = (4 * (v - u)) / (2 * den)" by (simp add: den_def)
      also have "\<dots> > 0" using den h(5) by (simp add: zero_less_divide_iff)
      finally show ?thesis by simp
    qed
    have hi: "(w - u) / den \<le> 1 / 2"
    proof -
      have "1 / 2 - (w - u) / den = (den - 2 * (w - u)) / (2 * den)"
        using den by (simp add: field_simps)
      also have "\<dots> = (4 * (v - w)) / (2 * den)" by (simp add: den_def)
      also have "\<dots> \<ge> 0" using den w(2) by (simp add: zero_le_divide_iff)
      finally show ?thesis by simp
    qed
    show ?thesis unfolding par using lo hi by simp
  qed
qed

section \<open>The YIN estimator: results\<close>

lemma yinDetect_unfold:
  "yinDetect this buffer sampleRate =
     (if js_lt (spec_rms buffer) (Fin (1 / 100)) then no_detection
      else case tauEstimateOf this buffer of
             None \<Rightarrow> no_detection
           | Some t \<Rightarrow>
               if js_lt (frequencyAt buffer sampleRate t) (minFrequency this) \<or>
                  js_gt (frequencyAt buffer sampleRate t) (maxFrequency this)
               then no_detection
               else \<lparr> frequency = frequencyAt buffer sampleRate t,
                      probability = js_sub (Fin 1) (computeYinBuffer buffer ! t) \<rparr>)"
  by (simp add: yinDetect_def Let_def tauEstimateOf_def frequencyAt_def rootMeanSquare_spec
           split: option.split)

lemma tauEstimateOf_None_iff:
  "tauEstimateOf this buffer = None \<longleftrightarrow>
     (\<forall>tau. 2 \<le> tau \<and> tau < length buffer div 2 \<longrightarrow>
            \<not> js_lt (spec_cmnd buffer tau) (yinThreshold this))"
  unfolding tauEstimateOf_def absoluteThreshold_None
  by (auto simp: computeYinBuffer_nth)

lemma detector_fields [simp]:
  "yinThreshold AudioPitchDetector = Fin (15 / 100)"
  "minFrequency AudioPitchDetector = Fin 70"
  "maxFrequency AudioPitchDetector = Fin 1200"
  "yinProbabilityThreshold AudioPitchDetector = Fin (8 / 10)"
  by (simp_all add: AudioPitchDetector_def)

lemma chosen_lag_default:
  assumes "tauEstimateOf AudioPitchDetector buffer = Some t"
  shows "2 \<le> t \<and> t < length buffer div 2 \<and>
         (\<exists>v b. spec_cmnd buffer t = Fin v \<and> 0 \<le> v \<and> v < 15 / 100 \<and>
                parabolic (computeYinBuffer buffer) (length buffer div 2) t = Fin b \<and>
                real t - 1 / 2 < b \<and> b \<le> real t + 1 / 2)"
proof -
  have th: "yinThreshold AudioPitchDetector = Fin (15 / 100)" "(15 / 100 :: real) \<le> 1" by simp_all
  from chosen_lag[OF assms th] parabolic_bounds[OF assms th] show ?thesis by blast
qed

lemma detection_form:
  assumes "yinDetect AudioPitchDetector buffer sampleRate \<noteq> no_detection"
  shows "\<exists>t v b. tauEstimateOf AudioPitchDetector buffer = Some t \<and>
           2 \<le> t \<and> t < length buffer div 2 \<and>
           spec_cmnd buffer t = Fin v \<and> 0 \<le> v \<and> v < 15 / 100 \<and>
           frequencyAt buffer sampleRate t = js_div sampleRate (Fin b) \<and>
           real t - 1 / 2 < b \<and> b \<le> real t + 1 / 2 \<and>
           \<not> js_lt (frequencyAt buffer sampleRate t) (Fin 70) \<and>
           \<not> js_gt (frequencyAt buffer sampleRate t) (Fin 1200) \<and>
           yinDetect AudioPitchDetector buffer sampleRate =
             \<lparr> frequency = frequencyAt buffer sampleRate t, probability = Fin (1 - v) \<rparr>"
proof -
  from assms obtain t where t: "tauEstimateOf AudioPitchDetector buffer = Some t"
    by (cases "tauEstimateOf AudioPitchDetector buffer") (auto simp: yinDetect_unfold)
  from chosen_lag_default[OF t] obtain v b where
    h: "2 \<le> t" "t < length buffer div 2" "spec_cmnd buffer t = Fin v" "0 \<le> v" "v < 15 / 100"
       "parabolic (computeYinBuffer buffer) (length buffer div 2) t = Fin b"
       "real t - 1 / 2 < b" "b \<le> real t + 1 / 2"
    by blast
  have p: "js_sub (Fin 1) (computeYinBuffer buffer ! t) = Fin (1 - v)"
    by (simp add: computeYinBuffer_nth[OF h(2)] h(3) js_sub_def)
  have f: "frequencyAt buffer sampleRate t = js_div sampleRate (Fin b)"
    by (simp add: frequencyAt_def h(6))
  from assms t have r: "\<not> js_lt (frequencyAt buffer sampleRate t) (Fin 70)"
      "\<not> js_gt (frequencyAt buffer sampleRate t) (Fin 1200)"
      "yinDetect AudioPitchDetector buffer sampleRate =
             \<lparr> frequency = frequencyAt buffer sampleRate t, probability = Fin (1 - v) \<rparr>"
    by (auto simp: yinDetect_unfold p split: if_splits)
  with t h f show ?thesis by blast
qed

text \<open>A run on a concrete buffer: a square wave of period 2 with eight samples.\<close>

lemma sample_sumSquares: "sumSquares [1, - 1, 1, - 1, 1, - 1, 1, - 1] = 8"
  by code_simp

lemma sample_rms: "rootMeanSquare [1, - 1, 1, - 1, 1, - 1, 1, - 1] = Fin 1"
  by (simp add: rootMeanSquare_def sample_sumSquares)

lemma sample_yinBuffer:
  "computeYinBuffer [1, - 1, 1, - 1, 1, - 1, 1, - 1] = [Fin 1, Fin 1, Fin 0, Fin (3 / 2)]"
  by code_simp

lemma sample_tau:
  "absoluteThreshold (Fin (15 / 100)) [Fin 1, Fin 1, Fin 0, Fin (3 / 2)] 4 2 = Some 2"
  by code_simp

lemma sample_parabolic:
  "parabolic [Fin 1, Fin 1, Fin 0, Fin (3 / 2)] 4 2 = Fin (19 / 10)"
  by code_simp


lemma sample_spec_values:
  "spec_rms [1, - 1, 1, - 1, 1, - 1, 1, - 1] = Fin 1"
  "spec_cmnd [1, - 1, 1, - 1, 1, - 1, 1, - 1] 2 = Fin 0"
  "tauEstimateOf AudioPitchDetector [1, - 1, 1, - 1, 1, - 1, 1, - 1] = Some 2"
  "frequencyAt [1, - 1, 1, - 1, 1, - 1, 1, - 1] (Fin 1900) 2 = Fin 1000"
proof -
  have len: "length [1, - 1, 1, - 1, 1, - 1, 1, - 1 :: real] div 2 = 4" by simp
  show "spec_rms [1, - 1, 1, - 1, 1, - 1, 1, - 1] = Fin 1"
    using sample_rms by (simp only: rootMeanSquare_spec)
  have "computeYinBuffer [1, - 1, 1, - 1, 1, - 1, 1, - 1] ! 2
        = spec_cmnd [1, - 1, 1, - 1, 1, - 1, 1, - 1] 2"
    by (rule computeYinBuffer_nth) simp
  thus "spec_cmnd [1, - 1, 1, - 1, 1, - 1, 1, - 1] 2 = Fin 0"
    by (simp add: sample_yinBuffer)
  show "tauEstimateOf AudioPitchDetector [1, - 1, 1, - 1, 1, - 1, 1, - 1] = Some 2"
    unfolding tauEstimateOf_def len sample_yinBuffer detector_fields by (rule sample_tau)
  show "frequencyAt [1, - 1, 1, - 1, 1, - 1, 1, - 1] (Fin 1900) 2 = Fin 1000"
    unfolding frequencyAt_def len sample_yinBuffer sample_parabolic by simp
qed



text \<open>
  Claim C9, as the code has it.  \<open>yinDetect\<close> does not validate its input and has no
  error result.  On an empty buffer, and on every buffer whose half length is below 3, it
  returns the ordinary no-detection result; on a sample rate that is zero or negative it
  returns the no-detection result whatever the buffer.
\<close>

theorem yinDetect_invalid_input:
  "yinDetect AudioPitchDetector [] sampleRate = no_detection \<and>
   (length buffer div 2 < 3 \<longrightarrow> yinDetect AudioPitchDetector buffer sampleRate = no_detection) \<and>
   (sr \<le> 0 \<longrightarrow> yinDetect AudioPitchDetector buffer (Fin sr) = no_detection)"
proof (intro conjI impI)
  have short: "\<And>buffer. length buffer div 2 < 3 \<Longrightarrow>
      yinDetect AudioPitchDetector buffer sampleRate = no_detection"
  proof -
    fix buffer :: "real list" assume "length buffer div 2 < 3"
    hence "tauEstimateOf AudioPitchDetector buffer = None"
      unfolding tauEstimateOf_None_iff by auto
    thus "yinDetect AudioPitchDetector buffer sampleRate = no_detection"
      by (simp add: yinDetect_unfold)
  qed
  show "yinDetect AudioPitchDetector [] sampleRate = no_detection" by (rule short) simp
  show "length buffer div 2 < 3 \<Longrightarrow> yinDetect AudioPitchDetector buffer sampleRate = no_detection"
    by (rule short)
next
  assume sr: "sr \<le> 0"
  show "yinDetect AudioPitchDetector buffer (Fin sr) = no_detection"
  proof (rule ccontr)
    assume "yinDetect AudioPitchDetector buffer (Fin sr) \<noteq> no_detection"
    from detection_form[OF this] obtain t b where
      h: "2 \<le> t" "frequencyAt buffer (Fin sr) t = js_div (Fin sr) (Fin b)" "real t - 1 / 2 < b"
         "\<not> js_lt (frequencyAt buffer (Fin sr) t) (Fin 70)"
      by blast
    have b0: "0 < b" using h(1,3) by auto
    hence "frequencyAt buffer (Fin sr) t = Fin (sr / b)" by (simp add: h(2))
    moreover have "sr / b \<le> 0" using sr b0 by (simp add: divide_nonpos_pos)
    ultimately show False using h(4) by simp
  qed
qed

theorem yinDetect_invalid_input_witness:
  "length [1, - 1, 1, - 1, 1 :: real] div 2 < 3 \<and> (- 44100 :: real) \<le> 0 \<and>
   yinDetect AudioPitchDetector [1, - 1, 1, - 1, 1] (Fin 44100) = no_detection \<and>
   yinDetect AudioPitchDetector [1, - 1, 1, - 1, 1, - 1, 1, - 1] (Fin (- 44100)) = no_detection"
  using yinDetect_invalid_input[of "Fin 44100" "[1, - 1, 1, - 1, 1]"]
    yinDetect_invalid_input[of "Fin 0" "[1, - 1, 1, - 1, 1, - 1, 1, - 1]" "- 44100"]
  by simp

text \<open>
  The claim as written has an empty buffer fail with an exception or an error result; the
  code returns the ordinary no-detection value.
\<close>

theorem yinDetect_empty_buffer_returns:
  "yinDetect AudioPitchDetector [] (Fin 44100) = no_detection"
  by (simp add: yinDetect_def Let_def rootMeanSquare_def sumSquares_def computeYinBuffer_def
        inf_of_sign_def absoluteThreshold.simps)



text \<open>
  A buffer of six samples has half length 3, fewer than 4 samples after halving; it is
  processed like any other and can give a detection.
\<close>

lemma sample_short_detect:
  "yinDetect AudioPitchDetector [1, - 1, 1, - 1, 1, - 1] (Fin 1000)
     = \<lparr> frequency = Fin 500, probability = Fin 1 \<rparr>"
proof -
  have len: "length [1, - 1, 1, - 1, 1, - 1 :: real] div 2 = 3" by simp
  have ss: "sumSquares [1, - 1, 1, - 1, 1, - 1] = 6" by code_simp
  have rms: "rootMeanSquare [1, - 1, 1, - 1, 1, - 1] = Fin 1"
    by (simp add: rootMeanSquare_def ss)
  have yb: "computeYinBuffer [1, - 1, 1, - 1, 1, - 1] = [Fin 1, Fin 1, Fin 0]" by code_simp
  have tau: "absoluteThreshold (Fin (15 / 100)) [Fin 1, Fin 1, Fin 0] 3 2 = Some 2" by code_simp
  have par: "parabolic [Fin 1, Fin 1, Fin 0] 3 2 = Fin 2" by code_simp
  show ?thesis
    unfolding yinDetect_def Let_def len rms yb detector_fields tau
    by (simp add: js_sub_def js_gt_def par)
qed

end
